theory Spec2Isabelle
  imports Main "HOL-Library.Sublist" "HOL-Library.AList"
begin

section \<open>Python values\<close>

text \<open>
  A Python \<^verbatim>\<open>str\<close> is a sequence of Unicode code points, so it is modelled as a list of
  natural numbers; \<open>py\<close> turns an ASCII literal into such a list. The messages of the
  notebook that hold symbols outside ASCII are written with their code points.
\<close>

type_synonym pystr = "nat list"

definition py :: "string \<Rightarrow> pystr" where
  "py s = map of_char s"

text \<open>The code points that \<^verbatim>\<open>str.strip()\<close> removes (those for which \<^verbatim>\<open>str.isspace\<close> holds).\<close>

definition py_isspace :: "nat \<Rightarrow> bool" where
  "py_isspace c \<longleftrightarrow>
     (9 \<le> c \<and> c \<le> 13) \<or> (28 \<le> c \<and> c \<le> 32) \<or> c = 133 \<or> c = 160 \<or> c = 5760 \<or>
     (8192 \<le> c \<and> c \<le> 8202) \<or> c = 8232 \<or> c = 8233 \<or> c = 8239 \<or> c = 8287 \<or>
     c = 12288"

definition strip :: "pystr \<Rightarrow> pystr" where
  "strip s = rev (dropWhile py_isspace (rev (dropWhile py_isspace s)))"

text \<open>\<^verbatim>\<open>(x or "")\<close> for a value that is a string or \<^verbatim>\<open>None\<close>.\<close>

definition or_empty :: "pystr option \<Rightarrow> pystr" where
  "or_empty x = (case x of None \<Rightarrow> [] | Some s \<Rightarrow> s)"

text \<open>\<^verbatim>\<open>str(n)\<close> for a length: the decimal digits.\<close>

fun str_nat :: "nat \<Rightarrow> pystr" where
  "str_nat n = (if n < 10 then [48 + n] else str_nat (n div 10) @ [48 + n mod 10])"

declare str_nat.simps [simp del]

text \<open>\<^verbatim>\<open>sep.join(xs)\<close>.\<close>

fun join :: "pystr \<Rightarrow> pystr list \<Rightarrow> pystr" where
  "join sep [] = []"
| "join sep [x] = x"
| "join sep (x # y # ys) = x @ sep @ join sep (y # ys)"

text \<open>
  An exception (a subclass of \<^verbatim>\<open>Exception\<close>) is the pair of what the handlers of the notebook
  read from it: \<^verbatim>\<open>type(e).__name__\<close> and \<^verbatim>\<open>str(e)\<close>.
\<close>

datatype exn = Exn (exn_type: pystr) (exn_msg: pystr)

text \<open>
  A LangChain \<^verbatim>\<open>Document\<close>: its text and its metadata dictionary, the entries in the
  order of their insertion.
\<close>

record document =
  page_content :: pystr
  metadata :: "(pystr \<times> pystr) list"

section \<open>External collaborators\<close>

text \<open>
  The notebook calls libraries whose code is not part of it. What they compute is a
  parameter of the model, one field of \<open>env\<close> per call:
  \<^item> \<open>load\<close>: \<^verbatim>\<open>RecursiveUrlLoader(url, max_depth, extractor=bs4_extract, timeout).load()\<close>,
    which returns the documents of the crawl or raises (the loader of the library is
    described further down);
  \<^item> \<open>split_text\<close>: \<^verbatim>\<open>RecursiveCharacterTextSplitter(chunk_size, chunk_overlap)\<close> applied
    to one text;
  \<^item> \<open>embed_documents\<close>: the embedding of the chunks when they are added to a collection,
    which succeeds or raises (the vectors themselves are not modelled);
  \<^item> \<open>rank\<close>: the search of a collection for a query (search type, query, contents),
    which gives the positions of the stored chunks in the order of the search, or raises;
  \<^item> \<open>generate\<close>: the language model (model name, prompt), which returns text or raises.
\<close>

record loader_args =
  root :: pystr
  max_depth :: int
  timeout :: nat

record env =
  load :: "loader_args \<Rightarrow> exn + document list"
  split_text :: "nat \<Rightarrow> nat \<Rightarrow> pystr \<Rightarrow> pystr list"
  embed_documents :: "pystr list \<Rightarrow> exn option"
  rank :: "pystr \<Rightarrow> pystr \<Rightarrow> document list \<Rightarrow> exn + nat list"
  generate :: "pystr \<Rightarrow> pystr \<Rightarrow> exn + pystr"

section \<open>Cell 3 and cell 4: global objects\<close>

definition LLM_MODEL :: pystr where
  "LLM_MODEL = py ''mistral:7b''"

definition EMBED_MODEL :: pystr where
  "EMBED_MODEL = py ''nomic-embed-text''"

record splitter =
  chunk_size :: nat
  chunk_overlap :: nat

definition SPLITTER :: splitter where
  "SPLITTER = \<lparr>chunk_size = 512, chunk_overlap = 64\<rparr>"

text \<open>
  A prompt template is its text cut at the placeholders: \<open>Lit\<close> for literal text,
  \<open>Var\<close> for \<^verbatim>\<open>{name}\<close>. \<open>format_prompt\<close> is \<^verbatim>\<open>template.format(**values)\<close>.
\<close>

datatype piece = Lit pystr | Var pystr

record prompt_template =
  input_variables :: "pystr list"
  template :: "piece list"

definition FALLBACK :: pystr where
  "FALLBACK = py ''I don't know based on the provided website content.''"

definition SAFE_PROMPT :: prompt_template where
  "SAFE_PROMPT = \<lparr>
     input_variables = [py ''context'', py ''question''],
     template =
       [Lit (py ''Use ONLY the context below to answer the question. '' @
             py ''If the answer is not in the context, reply exactly: '' @
             [39] @ py ''I don't know based on the provided website content.'' @ [39] @
             [10, 10] @
             py ''Context:'' @ [10]),
        Var (py ''context''),
        Lit ([10, 10] @ py ''Question: ''),
        Var (py ''question''),
        Lit ([10] @ py ''Answer:'')]\<rparr>"

fun fill :: "(pystr \<rightharpoonup> pystr) \<Rightarrow> piece \<Rightarrow> pystr" where
  "fill vals (Lit s) = s"
| "fill vals (Var v) = (case vals v of Some s \<Rightarrow> s | None \<Rightarrow> [])"

definition format_prompt :: "prompt_template \<Rightarrow> (pystr \<rightharpoonup> pystr) \<Rightarrow> pystr" where
  "format_prompt t vals = concat (map (fill vals) (template t))"

section \<open>Cell 5: crawl, index, question answering chain\<close>

text \<open>
  \<open>crawl_website\<close>: any exception of the loader is raised again as a \<^verbatim>\<open>RuntimeError\<close>;
  every document gets a \<^verbatim>\<open>source\<close> entry (its own, or the root URL). The calls of
  \<^verbatim>\<open>print\<close> are left out.
\<close>

definition set_source :: "pystr \<Rightarrow> document \<Rightarrow> document" where
  "set_source root_url d =
     d\<lparr>metadata :=
         AList.update (py ''source'')
           (case map_of (metadata d) (py ''source'') of Some s \<Rightarrow> s | None \<Rightarrow> root_url)
           (metadata d)\<rparr>"

definition crawl_website :: "env \<Rightarrow> pystr \<Rightarrow> int \<Rightarrow> exn + document list" where
  "crawl_website env root_url depth =
     (case load env \<lparr>root = root_url, max_depth = depth, timeout = 10\<rparr> of
        Inl e \<Rightarrow> Inl (Exn (py ''RuntimeError'') (py ''RecursiveUrlLoader failed: '' @ exn_msg e))
      | Inr docs \<Rightarrow> Inr (map (set_source root_url) docs))"

text \<open>The default of the \<^verbatim>\<open>depth\<close> parameter of \<open>crawl_website\<close>.\<close>

definition crawl_website_default_depth :: int where
  "crawl_website_default_depth = 2"

text \<open>
  \<^verbatim>\<open>SPLITTER.split_documents(docs)\<close>: the chunks of each document in turn, each chunk
  with the metadata of its document.
\<close>

definition split_documents :: "env \<Rightarrow> splitter \<Rightarrow> document list \<Rightarrow> document list" where
  "split_documents env sp docs =
     concat (map (\<lambda>d. map (\<lambda>t. d\<lparr>page_content := t\<rparr>)
                          (split_text env (chunk_size sp) (chunk_overlap sp) (page_content d)))
                 docs)"

text \<open>
  The vector store. With \<^verbatim>\<open>persist_directory=None\<close> Chroma keeps its collections in the
  memory of the process, found by name: \<open>chroma\<close> gives the chunks of each collection
  (none for a name never used). \<^verbatim>\<open>Chroma.from_documents\<close> gets the collection of the given
  name, creating it when there is none, embeds the chunks and adds them to it; the object
  it returns is a handle on that collection. Adding no chunk at all is an error of the
  library: the collection refuses an empty list with a \<^verbatim>\<open>ValueError\<close> (the wording of
  its message is the library's and plays no part below).
\<close>

type_synonym chroma = "pystr \<Rightarrow> document list"

record vectorstore =
  collection_name :: pystr

definition EMPTY_ADD :: exn where
  "EMPTY_ADD = Exn (py ''ValueError'') (py ''Expected IDs to be a non-empty list, got 0 IDs'')"

definition from_documents ::
  "env \<Rightarrow> chroma \<Rightarrow> document list \<Rightarrow> pystr \<Rightarrow> chroma \<times> (exn + vectorstore)" where
  "from_documents env c chunks name =
     (case embed_documents env (map page_content chunks) of
        Some e \<Rightarrow> (c, Inl e)
      | None \<Rightarrow>
          if chunks = [] then (c, Inl EMPTY_ADD)
          else (c(name := c name @ chunks), Inr \<lparr>collection_name = name\<rparr>))"

definition build_vectorstore ::
  "env \<Rightarrow> chroma \<Rightarrow> document list \<Rightarrow> pystr \<Rightarrow> chroma \<times> (exn + vectorstore)" where
  "build_vectorstore env c docs sid' =
     from_documents env c (split_documents env SPLITTER docs) (py ''session-'' @ sid')"

record retriever =
  vstore :: vectorstore
  search_type :: pystr
  k :: nat

record qa_chain =
  llm :: pystr
  qa_retriever :: retriever
  chain_type :: pystr
  return_source_documents :: bool
  prompt :: prompt_template

definition make_qa_chain :: "vectorstore \<Rightarrow> qa_chain" where
  "make_qa_chain vs =
     \<lparr>llm = LLM_MODEL,
      qa_retriever = \<lparr>vstore = vs, search_type = py ''mmr'', k = 4\<rparr>,
      chain_type = py ''stuff'',
      return_source_documents = True,
      prompt = SAFE_PROMPT\<rparr>"

text \<open>The thread pool for the calls of the language model.\<close>

record thread_pool =
  max_workers :: nat

definition EXECUTOR :: thread_pool where
  "EXECUTOR = \<lparr>max_workers = 4\<rparr>"

text \<open>
  \<^verbatim>\<open>qa_chain.invoke({"query": q})\<close>. The retriever searches the collection as it is when
  the chain runs and keeps the first \<open>k\<close> chunks of the search; the chain of type
  \<^verbatim>\<open>stuff\<close> joins their texts with an empty line between them, fills the prompt with
  this context and the question, and gives the prompt to the language model.
\<close>

definition get_relevant_documents ::
  "env \<Rightarrow> chroma \<Rightarrow> retriever \<Rightarrow> pystr \<Rightarrow> exn + document list" where
  "get_relevant_documents env c r q =
     (let stored = c (collection_name (vstore r)) in
      case rank env (search_type r) q stored of
        Inl e \<Rightarrow> Inl e
      | Inr order \<Rightarrow>
          Inr (map (\<lambda>i. stored ! i) (take (k r) (filter (\<lambda>i. i < length stored) order))))"

definition stuff_prompt :: "qa_chain \<Rightarrow> document list \<Rightarrow> pystr \<Rightarrow> pystr" where
  "stuff_prompt qa docs q =
     format_prompt (prompt qa)
       [py ''context'' \<mapsto> join [10, 10] (map page_content docs), py ''question'' \<mapsto> q]"

record response =
  query :: pystr
  result :: pystr
  source_documents :: "document list"

definition invoke :: "env \<Rightarrow> chroma \<Rightarrow> qa_chain \<Rightarrow> pystr \<Rightarrow> exn + response" where
  "invoke env c qa q =
     (case get_relevant_documents env c (qa_retriever qa) q of
        Inl e \<Rightarrow> Inl e
      | Inr docs \<Rightarrow>
          (case generate env (llm qa) (stuff_prompt qa docs q) of
             Inl e \<Rightarrow> Inl e
           | Inr text \<Rightarrow> Inr \<lparr>query = q, result = text, source_documents = docs\<rparr>))"

section \<open>Cell 6: the handlers\<close>

text \<open>
  The session dictionary \<^verbatim>\<open>state\<close> has at most the keys \<^verbatim>\<open>id\<close>, \<^verbatim>\<open>qa_chain\<close> and
  \<^verbatim>\<open>history\<close>; a key that is absent is \<open>None\<close>. The history is a Python list that the
  handlers change in place and that a suspended \<open>chat_fn\<close> keeps a reference to, so the
  lists live in a heap and the dictionary holds a reference.
\<close>

type_synonym turn = "pystr \<times> pystr"

record heap =
  cells :: "nat \<Rightarrow> turn list"
  fresh :: nat

definition alloc :: "heap \<Rightarrow> turn list \<Rightarrow> heap \<times> nat" where
  "alloc h xs = (\<lparr>cells = (cells h)(fresh h := xs), fresh = Suc (fresh h)\<rparr>, fresh h)"

definition list_append :: "heap \<Rightarrow> nat \<Rightarrow> turn \<Rightarrow> heap" where
  "list_append h r t = h\<lparr>cells := (cells h)(r := cells h r @ [t])\<rparr>"

text \<open>\<^verbatim>\<open>xs[-1] = t\<close>, an \<^verbatim>\<open>IndexError\<close> on the empty list.\<close>

definition set_last :: "heap \<Rightarrow> nat \<Rightarrow> turn \<Rightarrow> exn + heap" where
  "set_last h r t =
     (if cells h r = [] then Inl (Exn (py ''IndexError'') (py ''list assignment index out of range''))
      else Inr (h\<lparr>cells := (cells h)(r := butlast (cells h r) @ [t])\<rparr>))"

record state =
  sid :: "pystr option"
  qa_chain :: "qa_chain option"
  history :: "nat option"

definition empty_state :: state where
  "empty_state = \<lparr>sid = None, qa_chain = None, history = None\<rparr>"

definition WARN :: pystr where
  "WARN = [9888, 65039]"

definition ENTER_URL :: pystr where
  "ENTER_URL = WARN @ py '' Please enter a website URL.''"

definition crawl_failed :: "exn \<Rightarrow> pystr" where
  "crawl_failed e = WARN @ py '' Crawl failed: '' @ exn_type e @ py '': '' @ exn_msg e"

definition NO_PAGES :: pystr where
  "NO_PAGES = WARN @ py '' Could not retrieve any pages.''"

definition indexed :: "nat \<Rightarrow> pystr \<Rightarrow> pystr" where
  "indexed n url =
     [9989] @ py '' Indexed '' @ str_nat n @ py '' page(s) from '' @ url @ py ''. Ask away!''"

definition CRAWL_FIRST :: pystr where
  "CRAWL_FIRST = WARN @ py '' Crawl a website first.''"

definition THINKING :: pystr where
  "THINKING = [9203, 32, 8230] @ py ''thinking'' @ [8230]"

definition failed_answer :: "exn \<Rightarrow> pystr" where
  "failed_answer e = WARN @ py '' '' @ exn_type e @ py '': '' @ exn_msg e"

definition with_scheme :: "pystr \<Rightarrow> pystr" where
  "with_scheme url =
     (if prefix (py ''http://'') url \<or> prefix (py ''https://'') url then url
      else py ''https://'' @ url)"

text \<open>\<^verbatim>\<open>state.setdefault("id", str(uuid.uuid4()))\<close>, with \<open>u\<close> the identifier that was drawn.\<close>

definition setdefault_id :: "state \<Rightarrow> pystr \<Rightarrow> state \<times> pystr" where
  "setdefault_id st u = (case sid st of Some s \<Rightarrow> (st, s) | None \<Rightarrow> (st\<lparr>sid := Some u\<rparr>, u))"

text \<open>
  \<open>ingest_fn\<close> returns the collections, the heap and the session dictionary as it leaves
  them, and either the status it returns (\<open>Inr\<close>) or the exception that leaves it
  (\<open>Inl\<close>: \<open>build_vectorstore\<close> is called outside the \<^verbatim>\<open>try\<close>). The depth is an integer,
  on which \<^verbatim>\<open>int(depth)\<close> changes nothing.
\<close>

definition ingest_fn ::
  "env \<Rightarrow> pystr \<Rightarrow> chroma \<Rightarrow> heap \<Rightarrow> state \<Rightarrow> pystr option \<Rightarrow> int \<Rightarrow>
     chroma \<times> heap \<times> state \<times> (exn + pystr)" where
  "ingest_fn env u c h st url depth =
     (let url1 = strip (or_empty url) in
      if url1 = [] then (c, h, st, Inr ENTER_URL)
      else
        let url2 = with_scheme url1;
            (st1, sid') = setdefault_id st u
        in case crawl_website env url2 depth of
             Inl e \<Rightarrow> (c, h, st1, Inr (crawl_failed e))
           | Inr docs \<Rightarrow>
               if docs = [] then (c, h, st1, Inr NO_PAGES)
               else
                 (case build_vectorstore env c docs sid' of
                    (c1, Inl e) \<Rightarrow> (c1, h, st1, Inl e)
                  | (c1, Inr vs) \<Rightarrow>
                      let (h1, r) = alloc h []
                      in (c1, h1, st1\<lparr>qa_chain := Some (make_qa_chain vs), history := Some r\<rparr>,
                          Inr (indexed (length docs) url2))))"

text \<open>
  \<open>chat_fn\<close> is an asynchronous generator. It runs without interruption up to its
  first \<^verbatim>\<open>yield\<close> (\<open>chat_begin\<close>); if it goes on, the chain of the session runs on the
  thread pool (\<open>chat_invoke\<close>), and what it returned or raised is written over the last
  entry of the list before the second \<^verbatim>\<open>yield\<close> (\<open>chat_end\<close>). A \<^verbatim>\<open>yield\<close> shows the
  requester the list as it is then.
\<close>

datatype suspended = Finished | Awaiting pystr nat

text \<open>
  \<^verbatim>\<open>state.get("history", [])\<close>: the list of the session, or a new list that the
  dictionary does not hold.
\<close>

definition get_history :: "heap \<Rightarrow> state \<Rightarrow> heap \<times> nat" where
  "get_history h st = (case history st of Some r \<Rightarrow> (h, r) | None \<Rightarrow> alloc h [])"

definition chat_begin ::
  "heap \<Rightarrow> state \<Rightarrow> pystr option \<Rightarrow> heap \<times> (state \<times> turn list) \<times> suspended" where
  "chat_begin h st user_msg =
     (let msg = strip (or_empty user_msg);
          (h1, hist) = get_history h st
      in if msg = [] then (h1, (st, cells h1 hist), Finished)
         else if qa_chain st = None then
           (let h2 = list_append h1 hist (msg, CRAWL_FIRST)
            in (h2, (st, cells h2 hist), Finished))
         else
           (let h2 = list_append h1 hist (msg, THINKING)
            in (h2, (st, cells h2 hist), Awaiting msg hist)))"

text \<open>
  The call given to the thread pool, \<^verbatim>\<open>state["qa_chain"].invoke\<close>, evaluated inside the
  \<^verbatim>\<open>try\<close>.
\<close>

definition chat_invoke :: "env \<Rightarrow> chroma \<Rightarrow> state \<Rightarrow> pystr \<Rightarrow> exn + response" where
  "chat_invoke env c st msg =
     (case qa_chain st of
        None \<Rightarrow> Inl (Exn (py ''KeyError'') ([39] @ py ''qa_chain'' @ [39]))
      | Some qa \<Rightarrow> invoke env c qa msg)"

definition answer_of :: "exn + response \<Rightarrow> pystr" where
  "answer_of res = (case res of Inl e \<Rightarrow> failed_answer e | Inr r \<Rightarrow> result r)"

definition chat_end ::
  "heap \<Rightarrow> state \<Rightarrow> pystr \<Rightarrow> nat \<Rightarrow> exn + response \<Rightarrow> exn + heap \<times> (state \<times> turn list)" where
  "chat_end h st msg hist res =
     (case set_last h hist (msg, answer_of res) of
        Inl e \<Rightarrow> Inl e
      | Inr h1 \<Rightarrow> Inr (h1, (st, cells h1 hist)))"

text \<open>
  One call of \<open>chat_fn\<close> run to its end with nothing else running in between: the heap
  it leaves, what it yielded in order, the queries it gave to the thread pool, and the
  exception that left it, if any.
\<close>

record chat_run =
  heap_after :: heap
  yielded :: "(state \<times> turn list) list"
  submitted :: "pystr list"
  raised :: "exn option"

definition chat_fn :: "env \<Rightarrow> chroma \<Rightarrow> heap \<Rightarrow> state \<Rightarrow> pystr option \<Rightarrow> chat_run" where
  "chat_fn env c h st user_msg =
     (case chat_begin h st user_msg of
        (h1, y1, Finished) \<Rightarrow>
          \<lparr>heap_after = h1, yielded = [y1], submitted = [], raised = None\<rparr>
      | (h1, y1, Awaiting msg hist) \<Rightarrow>
          (case chat_end h1 st msg hist (chat_invoke env c st msg) of
             Inl e \<Rightarrow> \<lparr>heap_after = h1, yielded = [y1], submitted = [msg], raised = Some e\<rparr>
           | Inr (h2, y2) \<Rightarrow>
               \<lparr>heap_after = h2, yielded = [y1, y2], submitted = [msg], raised = None\<rparr>))"

definition clear_chat :: "heap \<Rightarrow> state \<Rightarrow> heap \<times> state \<times> turn list" where
  "clear_chat h st = (let (h1, r) = alloc h [] in (h1, st\<lparr>history := Some r\<rparr>, []))"

section \<open>Cell 7: the controls of the page\<close>

record slider =
  initial :: int
  minimum :: int
  maximum :: int
  step :: int

definition depth_slider :: slider where
  "depth_slider = \<lparr>initial = 2, minimum = 1, maximum = 3, step = 1\<rparr>"

text \<open>The values a slider can be set to: from the minimum, by steps, up to the maximum.\<close>

definition slider_values :: "slider \<Rightarrow> int list" where
  "slider_values s =
     map (\<lambda>i. minimum s + int i * step s) [0 ..< nat ((maximum s - minimum s) div step s) + 1]"

definition queue_max_size :: nat where
  "queue_max_size = 32"

section \<open>The process: sessions, calls in flight, schedules\<close>

text \<open>
  The page gives every session a dictionary of its own, empty at first
  (\<^verbatim>\<open>gr.State({})\<close>), and hands a handler the dictionary of the session that called it.
  A handler reaches no list but those it made for its session, so each session has its
  own heap; the collections of the vector store belong to the process. A call of \<open>chat_fn\<close> that is suspended at its first
  \<^verbatim>\<open>yield\<close> is a task of its session: \<open>Suspended\<close> until its chain has run on the thread
  pool, \<open>Returned\<close> with what the chain returned or raised, \<open>Done\<close> once it has been
  resumed. \<open>shown\<close> is what the requester of the session has been shown, in order.
\<close>

datatype phase = Suspended | Returned "exn + response" | Done

record task =
  t_msg :: pystr
  t_hist :: nat
  t_phase :: phase

datatype seen = Status pystr | Chat "turn list" | Fault exn

record session =
  dict :: state
  mem :: heap
  tasks :: "task list"
  shown :: "seen list"

record system =
  collections :: chroma
  sessions :: "nat \<Rightarrow> session"

definition empty_heap :: heap where
  "empty_heap = \<lparr>cells = (\<lambda>_. []), fresh = 0\<rparr>"

definition no_collections :: chroma where
  "no_collections = (\<lambda>_. [])"

definition init :: system where
  "init = \<lparr>collections = no_collections,
           sessions = (\<lambda>_. \<lparr>dict = empty_state, mem = empty_heap, tasks = [], shown = []\<rparr>)\<rparr>"

text \<open>
  What can happen next in a session: one of the three handlers is called (\<open>Ingest\<close>
  with the identifier that \<^verbatim>\<open>uuid4\<close> draws in this call, \<open>Ask\<close>, \<open>Clear\<close>), the chain
  of a suspended task runs (\<open>Run\<close>), or a task whose chain has returned is resumed
  (\<open>Resume\<close>). A call of \<open>chat_fn\<close> is cut where the coroutine is suspended, at its
  first \<^verbatim>\<open>yield\<close> and at its \<^verbatim>\<open>await\<close>; a call of \<open>ingest_fn\<close> or \<open>clear_chat\<close>, which
  have no suspension point, is one event, and so is the run of a chain.
\<close>

datatype event = Ingest "pystr option" int pystr | Ask "pystr option" | Run nat | Resume nat | Clear

definition do_ingest ::
  "env \<Rightarrow> chroma \<Rightarrow> session \<Rightarrow> pystr option \<Rightarrow> int \<Rightarrow> pystr \<Rightarrow> chroma \<times> session" where
  "do_ingest env c s url depth u =
     (case ingest_fn env u c (mem s) (dict s) url depth of
        (c1, h1, st1, out) \<Rightarrow>
          (c1, s\<lparr>dict := st1, mem := h1,
                 shown := shown s @ [case out of Inl e \<Rightarrow> Fault e | Inr m \<Rightarrow> Status m]\<rparr>))"

definition do_ask :: "session \<Rightarrow> pystr option \<Rightarrow> session" where
  "do_ask s user_msg =
     (case chat_begin (mem s) (dict s) user_msg of
        (h1, (st1, hist), next) \<Rightarrow>
          s\<lparr>dict := st1, mem := h1, shown := shown s @ [Chat hist],
            tasks := tasks s @
              (case next of
                 Finished \<Rightarrow> []
               | Awaiting msg r \<Rightarrow> [\<lparr>t_msg = msg, t_hist = r, t_phase = Suspended\<rparr>])\<rparr>)"

definition do_run :: "env \<Rightarrow> chroma \<Rightarrow> session \<Rightarrow> nat \<Rightarrow> session" where
  "do_run env c s n =
     (if n < length (tasks s) \<and> t_phase (tasks s ! n) = Suspended then
        s\<lparr>tasks := (tasks s)[n := (tasks s ! n)
             \<lparr>t_phase := Returned (chat_invoke env c (dict s) (t_msg (tasks s ! n)))\<rparr>]\<rparr>
      else s)"

definition do_resume :: "session \<Rightarrow> nat \<Rightarrow> session" where
  "do_resume s n =
     (if n < length (tasks s) then
        (case t_phase (tasks s ! n) of
           Returned res \<Rightarrow>
             (case chat_end (mem s) (dict s) (t_msg (tasks s ! n)) (t_hist (tasks s ! n)) res of
                Inl e \<Rightarrow>
                  s\<lparr>shown := shown s @ [Fault e],
                    tasks := (tasks s)[n := (tasks s ! n)\<lparr>t_phase := Done\<rparr>]\<rparr>
              | Inr (h1, (st1, hist)) \<Rightarrow>
                  s\<lparr>dict := st1, mem := h1, shown := shown s @ [Chat hist],
                    tasks := (tasks s)[n := (tasks s ! n)\<lparr>t_phase := Done\<rparr>]\<rparr>)
         | _ \<Rightarrow> s)
      else s)"

definition do_clear :: "session \<Rightarrow> session" where
  "do_clear s =
     (case clear_chat (mem s) (dict s) of
        (h1, st1, hist) \<Rightarrow> s\<lparr>dict := st1, mem := h1, shown := shown s @ [Chat hist]\<rparr>)"

fun perform :: "env \<Rightarrow> system \<Rightarrow> nat \<times> event \<Rightarrow> system" where
  "perform env sys (i, Ingest url depth u) =
     (case do_ingest env (collections sys) (sessions sys i) url depth u of
        (c1, s1) \<Rightarrow> \<lparr>collections = c1, sessions = (sessions sys)(i := s1)\<rparr>)"
| "perform env sys (i, Ask user_msg) =
     sys\<lparr>sessions := (sessions sys)(i := do_ask (sessions sys i) user_msg)\<rparr>"
| "perform env sys (i, Run n) =
     sys\<lparr>sessions := (sessions sys)(i := do_run env (collections sys) (sessions sys i) n)\<rparr>"
| "perform env sys (i, Resume n) =
     sys\<lparr>sessions := (sessions sys)(i := do_resume (sessions sys i) n)\<rparr>"
| "perform env sys (i, Clear) =
     sys\<lparr>sessions := (sessions sys)(i := do_clear (sessions sys i))\<rparr>"

fun run :: "env \<Rightarrow> system \<Rightarrow> (nat \<times> event) list \<Rightarrow> system" where
  "run env sys [] = sys"
| "run env sys (x # xs) = run env (perform env sys x) xs"

text \<open>The events of one session in a schedule, and the identifiers drawn in them.\<close>

definition only :: "nat \<Rightarrow> (nat \<times> event) list \<Rightarrow> (nat \<times> event) list" where
  "only i t = filter (\<lambda>x. fst x = i) t"

fun drawn :: "event \<Rightarrow> pystr list" where
  "drawn (Ingest url depth u) = [u]"
| "drawn _ = []"

definition uuids :: "(nat \<times> event) list \<Rightarrow> nat \<Rightarrow> pystr list" where
  "uuids t i = concat (map (\<lambda>x. drawn (snd x)) (only i t))"

section \<open>Stand-ins for the collaborators, for the examples\<close>

text \<open>
  A small web: two sites of one page each, a site with no page, and nothing else
  reachable; the loader \<open>stub_load\<close> raises for a host that does not answer (the loader
  of the library, described further down, does not). Every text is one chunk, the embedding succeeds, the search returns the
  stored chunks in their order. The language model \<open>stub_generate\<close> does what the
  prompt tells it for a question it cannot answer: it returns the sentence that the
  prompt quotes after \<^verbatim>\<open>reply exactly:\<close>.
\<close>

definition page :: "pystr \<Rightarrow> pystr \<Rightarrow> document" where
  "page url text = \<lparr>page_content = text, metadata = [(py ''source'', url)]\<rparr>"

definition stub_load :: "loader_args \<Rightarrow> exn + document list" where
  "stub_load a =
     (if root a = py ''https://a.test'' then Inr [page (py ''https://a.test'') (py ''alpha'')]
      else if root a = py ''https://b.test'' then Inr [page (py ''https://b.test'') (py ''beta'')]
      else if root a = py ''https://empty.test'' then Inr []
      else Inl (Exn (py ''ConnectionError'') (py ''unreachable'')))"

fun text_after :: "pystr \<Rightarrow> pystr \<Rightarrow> pystr option" where
  "text_after m [] = (if m = [] then Some [] else None)"
| "text_after m (x # xs) =
     (if prefix m (x # xs) then Some (drop (length m) (x # xs)) else text_after m xs)"

fun text_before :: "pystr \<Rightarrow> pystr \<Rightarrow> pystr option" where
  "text_before m [] = (if m = [] then Some [] else None)"
| "text_before m (x # xs) =
     (if prefix m (x # xs) then Some [] else map_option ((#) x) (text_before m xs))"

definition stub_generate :: "pystr \<Rightarrow> pystr \<Rightarrow> exn + pystr" where
  "stub_generate model p =
     (case text_after (py ''reply exactly: '' @ [39]) p of
        None \<Rightarrow> Inr []
      | Some rest \<Rightarrow> (case text_before [39, 10] rest of None \<Rightarrow> Inr [] | Some s \<Rightarrow> Inr s))"

definition stub_env :: env where
  "stub_env = \<lparr>load = stub_load,
               split_text = (\<lambda>size overlap t. [t]),
               embed_documents = (\<lambda>texts. None),
               rank = (\<lambda>kind q stored. Inr [0 ..< length stored]),
               generate = stub_generate\<rparr>"

definition timeout_env :: env where
  "timeout_env = stub_env\<lparr>generate := (\<lambda>model p. Inl (Exn (py ''TimeoutError'') (py ''timed out'')))\<rparr>"

text \<open>
  A session that has indexed the first site and asked one question, as \<open>ingest_fn\<close> and
  \<open>chat_fn\<close> leave it: its dictionary, its heap and the collections.
\<close>

definition site_a :: "document list" where
  "site_a = [page (py ''https://a.test'') (py ''alpha'')]"

definition indexed_state :: state where
  "indexed_state =
     \<lparr>sid = Some (py ''u0''),
      qa_chain = Some (make_qa_chain \<lparr>collection_name = py ''session-u0''\<rparr>),
      history = Some 0\<rparr>"

definition indexed_heap :: heap where
  "indexed_heap = \<lparr>cells = (\<lambda>_. [])(0 := [(py ''what?'', py ''alpha'')]), fresh = 1\<rparr>"

definition indexed_collections :: chroma where
  "indexed_collections = no_collections(py ''session-u0'' := site_a)"

text \<open>Two schedules of the process, used as examples.\<close>

definition two_sessions :: "(nat \<times> event) list" where
  "two_sessions =
     [(0, Ingest (Some (py ''https://a.test'')) 1 (py ''u0'')),
      (1, Ingest (Some (py ''b.test'')) 1 (py ''u1'')),
      (0, Ask (Some (py ''what?''))),
      (1, Ask (Some (py ''why?''))),
      (0, Run 0), (1, Run 0), (1, Resume 0), (0, Resume 0)]"

definition overlapping_asks :: "(nat \<times> event) list" where
  "overlapping_asks =
     [(0, Ingest (Some (py ''https://a.test'')) 1 (py ''u0'')),
      (0, Ask (Some (py ''first?''))),
      (0, Ask (Some (py ''second?''))),
      (0, Run 0), (0, Run 1), (0, Resume 0), (0, Resume 1)]"

definition ingest_twice :: "(nat \<times> event) list" where
  "ingest_twice =
     [(0, Ingest (Some (py ''https://a.test'')) 1 (py ''u0'')),
      (0, Ingest (Some (py ''https://b.test'')) 1 (py ''u1'')),
      (0, Ask (Some (py ''what?''))),
      (0, Run 0)]"



definition ingest_during_ask :: "(nat \<times> event) list" where
  "ingest_during_ask =
     [(0, Ingest (Some (py ''https://a.test'')) 1 (py ''u0'')),
      (0, Ask (Some (py ''first?''))),
      (0, Ingest (Some (py ''https://b.test'')) 1 (py ''u1'')),
      (0, Run 0), (0, Resume 0),
      (0, Ask (Some (py ''second?'')))]"

section \<open>The text splitter of the library\<close>

text \<open>
  \<^verbatim>\<open>RecursiveCharacterTextSplitter\<close> is LangChain's. The notebook sets its chunk size and
  overlap and leaves its other options at their defaults: the separators are the empty
  line, the line break, the space and the empty string, a separator stays at the start of
  the piece that follows it, lengths are counted in characters, and every chunk is
  stripped. What follows is the algorithm of the library (\<^verbatim>\<open>split_text\<close>, with
  \<^verbatim>\<open>_split_text\<close>, \<^verbatim>\<open>_split_text_with_regex\<close>, \<^verbatim>\<open>_merge_splits\<close> and \<^verbatim>\<open>_join_docs\<close>); the
  splitting of the environment, \<open>split_text\<close>, stands for it.
\<close>

definition separators :: "pystr list" where
  "separators = [[10, 10], [10], [32], []]"

text \<open>\<^verbatim>\<open>re.search\<close> for a separator taken literally.\<close>

fun occurs :: "pystr \<Rightarrow> pystr \<Rightarrow> bool" where
  "occurs sep [] = (sep = [])"
| "occurs sep (x # xs) = (prefix sep (x # xs) \<or> occurs sep xs)"

text \<open>
  \<^verbatim>\<open>re.split\<close> at a separator that is not empty: the texts between its occurrences, found
  from the left without overlap. \<open>skip\<close> counts the characters of an occurrence that are
  still to pass, \<open>cur\<close> is the text since the last occurrence.
\<close>

fun cut :: "pystr \<Rightarrow> nat \<Rightarrow> pystr \<Rightarrow> pystr \<Rightarrow> pystr list" where
  "cut sep skip cur [] = [cur]"
| "cut sep skip cur (x # xs) =
     (if 0 < skip then cut sep (skip - 1) cur xs
      else if prefix sep (x # xs) then cur # cut sep (length sep - 1) [] xs
      else cut sep 0 (cur @ [x]) xs)"

text \<open>
  \<^verbatim>\<open>_split_text_with_regex\<close> with \<^verbatim>\<open>keep_separator\<close> true: the pieces, each but the first
  with the separator in front, the empty ones left out; for the empty separator, the
  characters.
\<close>

definition split_text_with_regex :: "pystr \<Rightarrow> pystr \<Rightarrow> pystr list" where
  "split_text_with_regex sep txt =
     (if sep = [] then map (\<lambda>ch. [ch]) txt
      else
        (case cut sep 0 [] txt of
           [] \<Rightarrow> []
         | first # others \<Rightarrow> filter (\<lambda>p. p \<noteq> []) (first # map (\<lambda>p. sep @ p) others)))"

text \<open>\<^verbatim>\<open>_join_docs\<close>: the pieces joined and stripped; nothing when the result is empty.\<close>

definition join_docs :: "pystr \<Rightarrow> pystr list \<Rightarrow> pystr list" where
  "join_docs sep cur = (let joined = strip (join sep cur) in if joined = [] then [] else [joined])"

text \<open>
  The inner loop of \<^verbatim>\<open>_merge_splits\<close>, which drops pieces from the front of the current
  chunk while it is longer than the overlap, or too long for the next piece. \<open>tot\<close> is
  the length of the current chunk, so it is 0 when no piece is left.
\<close>

fun pop :: "splitter \<Rightarrow> nat \<Rightarrow> nat \<Rightarrow> pystr list \<Rightarrow> nat \<Rightarrow> pystr list \<times> nat" where
  "pop sp seplen len [] tot = ([], tot)"
| "pop sp seplen len (d # rest) tot =
     (if chunk_overlap sp < tot \<or> (chunk_size sp < tot + len + seplen \<and> 0 < tot) then
        pop sp seplen len rest (tot - (length d + (if rest \<noteq> [] then seplen else 0)))
      else (d # rest, tot))"

text \<open>The outer loop of \<^verbatim>\<open>_merge_splits\<close>, over the pieces, and the chunk after the loop.\<close>

fun merge_loop ::
  "splitter \<Rightarrow> pystr \<Rightarrow> pystr list \<Rightarrow> pystr list \<Rightarrow> pystr list \<Rightarrow> nat \<Rightarrow> pystr list" where
  "merge_loop sp sep [] docs cur tot = docs @ join_docs sep cur"
| "merge_loop sp sep (d # ds) docs cur tot =
     (if chunk_size sp < tot + length d + (if cur \<noteq> [] then length sep else 0) then
        (if cur \<noteq> [] then
           (case pop sp (length sep) (length d) cur tot of
              (cur1, tot1) \<Rightarrow>
                merge_loop sp sep ds (docs @ join_docs sep cur) (cur1 @ [d])
                  (tot1 + length d + (if cur1 \<noteq> [] then length sep else 0)))
         else merge_loop sp sep ds docs [d] (tot + length d))
      else
        merge_loop sp sep ds docs (cur @ [d])
          (tot + length d + (if cur \<noteq> [] then length sep else 0)))"

definition merge_splits :: "splitter \<Rightarrow> pystr \<Rightarrow> pystr list \<Rightarrow> pystr list" where
  "merge_splits sp sep splits = merge_loop sp sep splits [] [] 0"

text \<open>
  The loop of \<^verbatim>\<open>_split_text\<close> over the pieces: the pieces shorter than the chunk size
  are collected and merged (with the empty string between them, the separators being
  kept in the pieces), a longer piece is split further by \<open>deeper\<close>.
\<close>

fun process ::
  "splitter \<Rightarrow> (pystr \<Rightarrow> pystr list) \<Rightarrow> pystr list \<Rightarrow> pystr list \<Rightarrow> pystr list" where
  "process sp deeper [] good = (if good = [] then [] else merge_splits sp [] good)"
| "process sp deeper (p # rest) good =
     (if length p < chunk_size sp then process sp deeper rest (good @ [p])
      else (if good = [] then [] else merge_splits sp [] good) @ deeper p @
           process sp deeper rest [])"

text \<open>
  \<^verbatim>\<open>_split_text\<close>: the first separator that is empty or occurs in the text is used (the
  last one when there is none); a piece that is too long is split with the separators
  after it, or kept as it is when there are none. The library never calls it with no
  separator.
\<close>

fun split_with :: "splitter \<Rightarrow> pystr list \<Rightarrow> pystr \<Rightarrow> pystr list" where
  "split_with sp [] txt = []"
| "split_with sp [s] txt = process sp (\<lambda>p. [p]) (split_text_with_regex s txt) []"
| "split_with sp (s # s' # rest) txt =
     (if s = [] then process sp (\<lambda>p. [p]) (split_text_with_regex [] txt) []
      else if occurs s txt then
        process sp (\<lambda>p. split_with sp (s' # rest) p) (split_text_with_regex s txt) []
      else split_with sp (s' # rest) txt)"

definition recursive_split_text :: "nat \<Rightarrow> nat \<Rightarrow> pystr \<Rightarrow> pystr list" where
  "recursive_split_text width overlap txt =
     split_with \<lparr>chunk_size = width, chunk_overlap = overlap\<rparr> separators txt"

definition langchain_env :: env where
  "langchain_env = stub_env\<lparr>split_text := recursive_split_text\<rparr>"

section \<open>The loader of the library\<close>

text \<open>
  \<^verbatim>\<open>RecursiveUrlLoader\<close> is not part of the notebook; this is what its \<^verbatim>\<open>load\<close> does with
  the arguments that \<open>crawl_website\<close> gives it and the defaults of the others, among them
  \<^verbatim>\<open>continue_on_failure=True\<close> and \<^verbatim>\<open>check_response_status=False\<close>. What lies outside the
  process is a parameter:
  \<^item> \<open>get\<close>: \<^verbatim>\<open>requests.get(url, timeout=...)\<close>, the text of the response, or the exception
    that the request raises (no connection, time out, a malformed URL);
  \<^item> \<open>get_text\<close>: the text that \<^verbatim>\<open>BeautifulSoup\<close> finds in a page;
  \<^item> \<open>metadata_extractor\<close>: the metadata of a page (page, URL), with its \<^verbatim>\<open>source\<close>;
  \<^item> \<open>extract_sub_links\<close>: the links of a page (page, URL) that the loader may follow.
\<close>

record web =
  get :: "pystr \<Rightarrow> nat \<Rightarrow> exn + pystr"
  get_text :: "pystr \<Rightarrow> pystr"
  metadata_extractor :: "pystr \<Rightarrow> pystr \<Rightarrow> (pystr \<times> pystr) list"
  extract_sub_links :: "pystr \<Rightarrow> pystr \<Rightarrow> pystr list"

text \<open>\<open>bs4_extract\<close> of cell 5, the \<^verbatim>\<open>extractor\<close> that \<open>crawl_website\<close> gives the loader.\<close>

definition bs4_extract :: "web \<Rightarrow> pystr \<Rightarrow> pystr" where
  "bs4_extract w html = get_text w html"

text \<open>
  \<^verbatim>\<open>_get_child_links_recursive(url, visited, depth)\<close>, with \<open>levels\<close> for
  \<^verbatim>\<open>max_depth - depth\<close>: nothing at the depth limit; otherwise the URL is marked as
  visited and requested. An exception of the request is caught, logged, and the call
  returns with no document. A page whose extracted text is not empty is a document;
  then the links of the page that have not been visited are loaded in turn, one level
  deeper. The set \<^verbatim>\<open>visited\<close> is shared by all the calls, so it is passed on.
\<close>

fun get_child_links_recursive ::
  "web \<Rightarrow> nat \<Rightarrow> nat \<Rightarrow> pystr \<Rightarrow> pystr list \<Rightarrow> pystr list \<times> document list" where
  "get_child_links_recursive w tmo 0 url visited = (visited, [])"
| "get_child_links_recursive w tmo (Suc levels) url visited =
     (case get w url tmo of
        Inl e \<Rightarrow> (url # visited, [])
      | Inr html \<Rightarrow>
          fold (\<lambda>link acc.
                  if link \<in> set (fst acc) then acc
                  else (case get_child_links_recursive w tmo levels link (fst acc) of
                          (seen, found) \<Rightarrow> (seen, snd acc @ found)))
               (extract_sub_links w html url)
               (url # visited,
                if bs4_extract w html = [] then []
                else [\<lparr>page_content = bs4_extract w html,
                       metadata = metadata_extractor w html url\<rparr>]))"

definition recursive_url_loader :: "web \<Rightarrow> loader_args \<Rightarrow> exn + document list" where
  "recursive_url_loader w a =
     Inr (snd (get_child_links_recursive w (timeout a) (nat (max_depth a)) (root a) []))"

text \<open>
  A small web for the loader: the two sites of the examples, of one page each, a site
  whose page has no text, a site whose page is one space, and no other host that
  answers; no page has a link. \<open>library_env\<close> has the loader and the splitter of the
  library.
\<close>

definition stub_get :: "pystr \<Rightarrow> nat \<Rightarrow> exn + pystr" where
  "stub_get url tmo =
     (if url = py ''https://a.test'' then Inr (py ''alpha'')
      else if url = py ''https://b.test'' then Inr (py ''beta'')
      else if url = py ''https://empty.test'' then Inr []
      else if url = py ''https://blank.test'' then Inr (py '' '')
      else Inl (Exn (py ''ConnectionError'') (py ''unreachable'')))"

definition stub_web :: web where
  "stub_web = \<lparr>get = stub_get,
               get_text = (\<lambda>html. html),
               metadata_extractor = (\<lambda>html url. [(py ''source'', url)]),
               extract_sub_links = (\<lambda>html url. [])\<rparr>"

definition library_env :: env where
  "library_env = langchain_env\<lparr>load := recursive_url_loader stub_web\<rparr>"

text \<open>
  A site with links: its root page links to two pages and to itself; the first of them
  links back to the root and on to a third page; the second does not answer.
\<close>

definition linked_get :: "pystr \<Rightarrow> nat \<Rightarrow> exn + pystr" where
  "linked_get url tmo =
     (if url = py ''https://hub.test'' then Inr (py ''hub'')
      else if url = py ''https://hub.test/a'' then Inr (py ''leaf a'')
      else if url = py ''https://hub.test/c'' then Inr (py ''leaf c'')
      else Inl (Exn (py ''ConnectionError'') (py ''unreachable'')))"

definition linked_links :: "pystr \<Rightarrow> pystr \<Rightarrow> pystr list" where
  "linked_links html url =
     (if html = py ''hub'' then
        [py ''https://hub.test/a'', py ''https://hub.test/b'', py ''https://hub.test'']
      else if html = py ''leaf a'' then [py ''https://hub.test'', py ''https://hub.test/c'']
      else [])"

definition linked_web :: web where
  "linked_web = \<lparr>get = linked_get,
                 get_text = (\<lambda>html. html),
                 metadata_extractor = (\<lambda>html url. [(py ''source'', url)]),
                 extract_sub_links = linked_links\<rparr>"

section \<open>Windows, in the words of the specification\<close>

text \<open>
  Windows of length \<open>width\<close> that advance by \<open>width - overlap\<close>, the last of which may be
  shorter; and the text put together again from the first chunk and what every later
  chunk adds after its first \<open>overlap\<close> characters.
\<close>

function spec_windows :: "nat \<Rightarrow> nat \<Rightarrow> 'a list \<Rightarrow> 'a list list" where
  "spec_windows width overlap xs =
     (if xs = [] then []
      else if length xs \<le> width \<or> width \<le> overlap then [xs]
      else take width xs # spec_windows width overlap (drop (width - overlap) xs))"
  by pat_completeness auto
termination
  by (relation "measure (\<lambda>(width, overlap, xs). length xs)") auto

declare spec_windows.simps [simp del]

fun reconstruct :: "nat \<Rightarrow> 'a list list \<Rightarrow> 'a list" where
  "reconstruct overlap [] = []"
| "reconstruct overlap (w # ws) = w @ concat (map (drop overlap) ws)"

text \<open>Each chunk begins with the last \<open>overlap\<close> characters of the chunk before it.\<close>

fun overlapping :: "nat \<Rightarrow> 'a list list \<Rightarrow> bool" where
  "overlapping overlap (v # w # ws) \<longleftrightarrow>
     overlap \<le> length v \<and> overlap \<le> length w \<and>
     drop (length v - overlap) v = take overlap w \<and> overlapping overlap (w # ws)"
| "overlapping overlap ws \<longleftrightarrow> True"

section \<open>Notions used in the statements and proofs\<close>

text \<open>The status with which \<open>ingest_fn\<close> reports success starts with the check mark.\<close>

definition reports_success :: "exn + pystr \<Rightarrow> bool" where
  "reports_success out = (case out of Inl e \<Rightarrow> False | Inr m \<Rightarrow> prefix [9989] m)"

text \<open>
  The chain of a session searches the collection named after the identifier of the
  session: an invariant of every dictionary the handlers produce.
\<close>

definition tied :: "state \<Rightarrow> bool" where
  "tied s \<longleftrightarrow>
     (case qa_chain s of
        None \<Rightarrow> True
      | Some qa \<Rightarrow>
          (case sid s of
             None \<Rightarrow> False
           | Some i \<Rightarrow> collection_name (vstore (qa_retriever qa)) = py ''session-'' @ i))"

text \<open>
  Two states of the process agree for session \<open>i\<close>, whose identifiers lie in \<open>I\<close>, when
  the session is the same in both and so are the collections named after \<open>I\<close>; no other
  session has an identifier of \<open>I\<close>.
\<close>

definition agree :: "nat \<Rightarrow> pystr set \<Rightarrow> system \<Rightarrow> system \<Rightarrow> bool" where
  "agree i I a b \<longleftrightarrow>
     sessions a i = sessions b i \<and>
     (\<forall>x\<in>I. collections a (py ''session-'' @ x) = collections b (py ''session-'' @ x)) \<and>
     tied (dict (sessions a i)) \<and>
     (\<forall>x. sid (dict (sessions a i)) = Some x \<longrightarrow> x \<in> I) \<and>
     (\<forall>j x. j \<noteq> i \<longrightarrow> sid (dict (sessions a j)) = Some x \<longrightarrow> x \<notin> I)"

section \<open>Basic facts\<close>

lemma session_name_inj: "py ''session-'' @ a = py ''session-'' @ b \<longleftrightarrow> a = b"
  by simp

lemma setdefault_id_keeps:
  "qa_chain (fst (setdefault_id s u)) = qa_chain s"
  "history (fst (setdefault_id s u)) = history s"
  "sid (fst (setdefault_id s u)) = Some (snd (setdefault_id s u))"
  "snd (setdefault_id s u) = (case sid s of Some x \<Rightarrow> x | None \<Rightarrow> u)"
  "sid s \<noteq> None \<Longrightarrow> fst (setdefault_id s u) = s"
  by (auto simp: setdefault_id_def split: option.splits)

lemma setdefault_id_cases:
  "snd (setdefault_id s u) = u \<and> sid s = None \<or> sid s = Some (snd (setdefault_id s u))"
  by (auto simp: setdefault_id_def split: option.splits)

lemma crawl_failed_not_no_pages: "crawl_failed e \<noteq> NO_PAGES"
  by (simp add: crawl_failed_def NO_PAGES_def py_def)

lemma strip_literals:
  "strip (py ''hi'') = py ''hi''"
  "strip (py ''what?'') = py ''what?''"
  "strip (py ''again?'') = py ''again?''"
  "strip (py ''down.test'') = py ''down.test''"
  "strip (py ''empty.test'') = py ''empty.test''"
  "strip (py ''https://b.test'') = py ''https://b.test''"
  by (simp_all add: strip_def py_def py_isspace_def)

lemma with_scheme_literals:
  "with_scheme (py ''down.test'') = py ''https://down.test''"
  "with_scheme (py ''empty.test'') = py ''https://empty.test''"
  "with_scheme (py ''https://b.test'') = py ''https://b.test''"
  by (simp_all add: with_scheme_def py_def)

section \<open>No index: guidance, and no call of the chain\<close>

lemma chat_begin_no_index:
  assumes "qa_chain s = None" and "strip (or_empty user_msg) \<noteq> []"
  shows "chat_begin h s user_msg =
     (case history s of
        Some r \<Rightarrow> (list_append h r (strip (or_empty user_msg), CRAWL_FIRST),
                   (s, cells h r @ [(strip (or_empty user_msg), CRAWL_FIRST)]), Finished)
      | None \<Rightarrow> (list_append (fst (alloc h [])) (fresh h) (strip (or_empty user_msg), CRAWL_FIRST),
                 (s, [(strip (or_empty user_msg), CRAWL_FIRST)]), Finished))"
  using assms
  by (auto simp: chat_begin_def get_history_def alloc_def list_append_def Let_def
           split: option.splits)

text \<open>
  Claim C3. In a session whose dictionary has no \<^verbatim>\<open>qa_chain\<close>, a question that is not
  blank makes \<open>chat_fn\<close> yield once, the history followed by the question with the
  answer "Crawl a website first."; nothing is given to the thread pool, no exception
  leaves the call, and the run is the same whatever the collaborators and the
  collections are: the chain and the language model are not called.
\<close>

theorem no_index_guidance:
  assumes "qa_chain s = None" and "strip (or_empty user_msg) \<noteq> []"
  shows "yielded (chat_fn env c h s user_msg) =
           [(s, (case history s of Some r \<Rightarrow> cells h r | None \<Rightarrow> []) @
                [(strip (or_empty user_msg), CRAWL_FIRST)])] \<and>
         submitted (chat_fn env c h s user_msg) = [] \<and>
         raised (chat_fn env c h s user_msg) = None \<and>
         chat_fn env c h s user_msg = chat_fn env' c' h s user_msg"
  using assms by (auto simp: chat_fn_def chat_begin_no_index split: option.splits)

theorem no_index_guidance_witness:
  "qa_chain empty_state = None \<and>
   strip (or_empty (Some (py ''hi''))) = py ''hi'' \<and>
   yielded (chat_fn stub_env no_collections empty_heap empty_state (Some (py ''hi''))) =
     [(empty_state, [(py ''hi'', WARN @ py '' Crawl a website first.'')])] \<and>
   submitted (chat_fn stub_env no_collections empty_heap empty_state (Some (py ''hi''))) = [] \<and>
   chat_fn stub_env no_collections empty_heap empty_state (Some (py ''hi'')) =
     chat_fn timeout_env indexed_collections empty_heap empty_state (Some (py ''hi''))"
proof -
  have a: "qa_chain empty_state = None" by (simp add: empty_state_def)
  have b: "strip (or_empty (Some (py ''hi''))) \<noteq> []"
    by (simp add: or_empty_def strip_literals) (simp add: py_def)
  note run = no_index_guidance[OF a b, of stub_env no_collections empty_heap timeout_env
      indexed_collections]
  have "yielded (chat_fn stub_env no_collections empty_heap empty_state (Some (py ''hi''))) =
     [(empty_state, [(py ''hi'', WARN @ py '' Crawl a website first.'')])]"
    using run[THEN conjunct1]
    by (simp add: or_empty_def strip_literals CRAWL_FIRST_def empty_state_def)
  moreover have
    "submitted (chat_fn stub_env no_collections empty_heap empty_state (Some (py ''hi''))) = []"
    using run[THEN conjunct2, THEN conjunct1] .
  moreover have "chat_fn stub_env no_collections empty_heap empty_state (Some (py ''hi'')) =
     chat_fn timeout_env indexed_collections empty_heap empty_state (Some (py ''hi''))"
    using run[THEN conjunct2, THEN conjunct2, THEN conjunct2] .
  ultimately show ?thesis
    using a by (simp add: or_empty_def strip_literals)
qed

section \<open>Failed ingest\<close>

text \<open>
  What \<open>ingest_fn\<close> does with a loader that raises and with a loader that returns no
  document, for a URL that is not blank: the status "Crawl failed: RuntimeError:
  RecursiveUrlLoader failed: ..." with the message of the loader in the first case, the
  status "Could not retrieve any pages." in the second, and the two are never equal. In
  both cases the collections and the heap are as before, and the dictionary keeps its
  \<^verbatim>\<open>qa_chain\<close> and its \<^verbatim>\<open>history\<close> (absent if they were absent); the only change it can
  see is that a session without \<^verbatim>\<open>id\<close> gets the identifier drawn.
\<close>

lemma failed_ingest_keeps_index:
  assumes "strip (or_empty url) \<noteq> []"
  shows
   "(\<forall>e. load env \<lparr>root = with_scheme (strip (or_empty url)), max_depth = depth,
                     timeout = 10\<rparr> = Inl e \<longrightarrow>
        ingest_fn env u c h s url depth =
          (c, h, fst (setdefault_id s u),
           Inr (WARN @ py '' Crawl failed: RuntimeError: RecursiveUrlLoader failed: '' @
                exn_msg e))) \<and>
    (load env \<lparr>root = with_scheme (strip (or_empty url)), max_depth = depth,
                timeout = 10\<rparr> = Inr [] \<longrightarrow>
        ingest_fn env u c h s url depth = (c, h, fst (setdefault_id s u), Inr NO_PAGES)) \<and>
    (\<forall>e. crawl_failed e \<noteq> NO_PAGES) \<and>
    qa_chain (fst (setdefault_id s u)) = qa_chain s \<and>
    history (fst (setdefault_id s u)) = history s \<and>
    sid (fst (setdefault_id s u)) = Some (case sid s of Some x \<Rightarrow> x | None \<Rightarrow> u) \<and>
    (sid s \<noteq> None \<longrightarrow> fst (setdefault_id s u) = s)"
proof -
  have msg: "crawl_failed (Exn (py ''RuntimeError'') (py ''RecursiveUrlLoader failed: '' @ m)) =
     WARN @ py '' Crawl failed: RuntimeError: RecursiveUrlLoader failed: '' @ m" for m
    by (simp add: crawl_failed_def py_def)
  show ?thesis
    using assms
    by (auto simp: ingest_fn_def crawl_website_def Let_def setdefault_id_keeps msg
          crawl_failed_not_no_pages split: prod.splits)
qed

text \<open>
  The loader of the library, made as \<open>crawl_website\<close> makes it, catches the exception of a
  request. When the root page cannot be retrieved it returns no document and raises
  nothing, so \<open>ingest_fn\<close> takes the branch of the empty crawl.
\<close>

lemma fetch_failure_skipped:
  assumes "get w (root a) (timeout a) = Inl e"
  shows "recursive_url_loader w a = Inr []"
  using assms by (cases "nat (max_depth a)") (simp_all add: recursive_url_loader_def)

lemma fetch_failure_is_no_pages:
  assumes "strip (or_empty url) \<noteq> []"
    and "load env = recursive_url_loader w"
    and "get w (with_scheme (strip (or_empty url))) 10 = Inl e"
  shows "ingest_fn env u c h s url depth = (c, h, fst (setdefault_id s u), Inr NO_PAGES)"
proof -
  have "load env \<lparr>root = with_scheme (strip (or_empty url)), max_depth = depth,
      timeout = 10\<rparr> = Inr []"
    unfolding assms(2) by (rule fetch_failure_skipped[where e = e]) (simp add: assms(3))
  then show ?thesis
    using assms(1) by (simp add: ingest_fn_def crawl_website_def Let_def split: prod.splits)
qed

lemma library_env_load: "load library_env = recursive_url_loader stub_web"
  by (simp add: library_env_def)

lemma stub_web_fields:
  "get_text stub_web = (\<lambda>html. html)"
  "metadata_extractor stub_web = (\<lambda>html url. [(py ''source'', url)])"
  "extract_sub_links stub_web = (\<lambda>html url. [])"
  by (simp_all add: stub_web_def)

text \<open>
  The loader on a site with links. With the depth 2 it returns the root page and the
  first page it links to: the page that does not answer is skipped, the link back to the
  root is not followed again, and the third page is one level too deep. With the depth 3
  the third page is returned as well.
\<close>

lemma linked_web_pages:
  "get linked_web (py ''https://hub.test'') t = Inr (py ''hub'')"
  "get linked_web (py ''https://hub.test/a'') t = Inr (py ''leaf a'')"
  "get linked_web (py ''https://hub.test/b'') t =
     Inl (Exn (py ''ConnectionError'') (py ''unreachable''))"
  "get linked_web (py ''https://hub.test/c'') t = Inr (py ''leaf c'')"
  "extract_sub_links linked_web (py ''hub'') u =
     [py ''https://hub.test/a'', py ''https://hub.test/b'', py ''https://hub.test'']"
  "extract_sub_links linked_web (py ''leaf a'') u =
     [py ''https://hub.test'', py ''https://hub.test/c'']"
  "extract_sub_links linked_web (py ''leaf c'') u = []"
  "bs4_extract linked_web html = html"
  "metadata_extractor linked_web html u = [(py ''source'', u)]"
  by (simp_all add: linked_web_def linked_get_def linked_links_def bs4_extract_def py_def)

lemma linked_web_urls:
  "py ''https://hub.test/a'' \<noteq> py ''https://hub.test''"
  "py ''https://hub.test/b'' \<noteq> py ''https://hub.test''"
  "py ''https://hub.test/c'' \<noteq> py ''https://hub.test''"
  "py ''https://hub.test/b'' \<noteq> py ''https://hub.test/a''"
  "py ''https://hub.test/c'' \<noteq> py ''https://hub.test/a''"
  "py ''hub'' \<noteq> []" "py ''leaf a'' \<noteq> []" "py ''leaf c'' \<noteq> []"
  by (simp_all add: py_def)

lemma loader_follows_links:
  "recursive_url_loader linked_web \<lparr>root = py ''https://hub.test'', max_depth = 2, timeout = 10\<rparr> =
     Inr [page (py ''https://hub.test'') (py ''hub''),
          page (py ''https://hub.test/a'') (py ''leaf a'')]"
  "recursive_url_loader linked_web \<lparr>root = py ''https://hub.test'', max_depth = 3, timeout = 10\<rparr> =
     Inr [page (py ''https://hub.test'') (py ''hub''),
          page (py ''https://hub.test/a'') (py ''leaf a''),
          page (py ''https://hub.test/c'') (py ''leaf c'')]"
  "recursive_url_loader linked_web \<lparr>root = py ''https://hub.test'', max_depth = 0, timeout = 10\<rparr> =
     Inr []"
  by (simp_all add: recursive_url_loader_def numeral_2_eq_2 numeral_3_eq_3 linked_web_pages
        linked_web_urls page_def)

text \<open>
  Claim C4 on the code. The host \<^verbatim>\<open>down.test\<close> does not answer: the request for the root
  page raises \<^verbatim>\<open>ConnectionError\<close>. The loader returns no document, and a fresh session
  that ingests this URL is told "Could not retrieve any pages.", word for word what
  a session is told whose crawl reached the root page and found no text in it
  (\<^verbatim>\<open>empty.test\<close>). The status "Crawl failed", which \<open>ingest_fn\<close> has for a crawl that
  raises, is not given. In both calls the session is left without index and without
  history, with the identifier that was drawn.
\<close>

theorem unreachable_root_reported_as_no_pages:
  "get stub_web (py ''https://down.test'') 10 =
     Inl (Exn (py ''ConnectionError'') (py ''unreachable'')) \<and>
   load library_env \<lparr>root = py ''https://down.test'', max_depth = 2, timeout = 10\<rparr> = Inr [] \<and>
   ingest_fn library_env (py ''u0'') no_collections empty_heap empty_state
       (Some (py ''down.test'')) 2 =
     (no_collections, empty_heap, \<lparr>sid = Some (py ''u0''), qa_chain = None, history = None\<rparr>,
      Inr (WARN @ py '' Could not retrieve any pages.'')) \<and>
   get stub_web (py ''https://empty.test'') 10 = Inr [] \<and>
   ingest_fn library_env (py ''u0'') no_collections empty_heap empty_state
       (Some (py ''empty.test'')) 2 =
     (no_collections, empty_heap, \<lparr>sid = Some (py ''u0''), qa_chain = None, history = None\<rparr>,
      Inr (WARN @ py '' Could not retrieve any pages.''))"
proof -
  have down: "get stub_web (py ''https://down.test'') 10 =
      Inl (Exn (py ''ConnectionError'') (py ''unreachable''))"
    by (simp add: stub_web_def stub_get_def) (simp add: py_def)
  have empty: "get stub_web (py ''https://empty.test'') 10 = Inr []"
    by (simp add: stub_web_def stub_get_def) (simp add: py_def)
  have q: "strip (or_empty (Some (py ''down.test''))) = py ''down.test''"
    "strip (or_empty (Some (py ''empty.test''))) = py ''empty.test''"
    by (simp_all add: or_empty_def strip_literals)
  have ne: "py ''down.test'' \<noteq> []" "py ''empty.test'' \<noteq> []" by (simp_all add: py_def)
  have sd: "setdefault_id empty_state (py ''u0'') =
      (\<lparr>sid = Some (py ''u0''), qa_chain = None, history = None\<rparr>, py ''u0'')"
    by (simp add: setdefault_id_def empty_state_def)
  have l1: "load library_env \<lparr>root = py ''https://down.test'', max_depth = 2, timeout = 10\<rparr> =
      Inr []"
    unfolding library_env_load
    by (rule fetch_failure_skipped[where e = "Exn (py ''ConnectionError'') (py ''unreachable'')"])
       (simp add: down)
  have l2: "load library_env \<lparr>root = py ''https://empty.test'', max_depth = 2, timeout = 10\<rparr> =
      Inr []"
    unfolding library_env_load
    by (simp add: recursive_url_loader_def numeral_2_eq_2 empty stub_web_fields bs4_extract_def)
  have i1: "ingest_fn library_env (py ''u0'') no_collections empty_heap empty_state
       (Some (py ''down.test'')) 2 =
     (no_collections, empty_heap, \<lparr>sid = Some (py ''u0''), qa_chain = None, history = None\<rparr>,
      Inr NO_PAGES)"
    using ne l1
    by (simp add: ingest_fn_def q with_scheme_literals crawl_website_def sd Let_def)
  have i2: "ingest_fn library_env (py ''u0'') no_collections empty_heap empty_state
       (Some (py ''empty.test'')) 2 =
     (no_collections, empty_heap, \<lparr>sid = Some (py ''u0''), qa_chain = None, history = None\<rparr>,
      Inr NO_PAGES)"
    using ne l2
    by (simp add: ingest_fn_def q with_scheme_literals crawl_website_def sd Let_def)
  show ?thesis
    using down empty l1 i1 i2 unfolding NO_PAGES_def by (intro conjI)
qed

section \<open>What one call of \<open>ingest_fn\<close> does\<close>

lemma reports_success_simps:
  "\<not> reports_success (Inl e)"
  "\<not> reports_success (Inr ENTER_URL)"
  "\<not> reports_success (Inr (crawl_failed e))"
  "\<not> reports_success (Inr NO_PAGES)"
  "reports_success (Inr (indexed n url))"
  by (simp_all add: reports_success_def ENTER_URL_def crawl_failed_def NO_PAGES_def
        indexed_def WARN_def)

text \<open>
  A call either fails, and then leaves the collections and the heap as they were and
  at most adds the identifier to the dictionary, or succeeds: the loader returned
  documents, the splitter made at least one chunk of them and the embedding did not
  raise.
\<close>

lemma ingest_fn_cases:
  obtains
    (failed) s1 out where
      "\<forall>c. ingest_fn env u c h s url depth = (c, h, s1, out)"
      "\<not> reports_success out"
      "s1 = s \<or> s1 = fst (setdefault_id s u)"
      "strip (or_empty url) = [] \<or>
       (\<exists>e. crawl_website env (with_scheme (strip (or_empty url))) depth = Inl e) \<or>
       crawl_website env (with_scheme (strip (or_empty url))) depth = Inr [] \<or>
       (\<exists>docs. crawl_website env (with_scheme (strip (or_empty url))) depth = Inr docs \<and>
          (embed_documents env (map page_content (split_documents env SPLITTER docs)) \<noteq> None \<or>
           split_documents env SPLITTER docs = []))"
  | (succeeded) docs where
      "strip (or_empty url) \<noteq> []"
      "crawl_website env (with_scheme (strip (or_empty url))) depth = Inr docs"
      "docs \<noteq> []"
      "embed_documents env (map page_content (split_documents env SPLITTER docs)) = None"
      "split_documents env SPLITTER docs \<noteq> []"
      "\<forall>c. ingest_fn env u c h s url depth =
         (c(py ''session-'' @ snd (setdefault_id s u) :=
              c (py ''session-'' @ snd (setdefault_id s u)) @ split_documents env SPLITTER docs),
          \<lparr>cells = (cells h)(fresh h := []), fresh = Suc (fresh h)\<rparr>,
          (fst (setdefault_id s u))
            \<lparr>qa_chain := Some (make_qa_chain
                \<lparr>collection_name = py ''session-'' @ snd (setdefault_id s u)\<rparr>),
             history := Some (fresh h)\<rparr>,
          Inr (indexed (length docs) (with_scheme (strip (or_empty url)))))"
proof (cases "strip (or_empty url) = []")
  case True
  then have "\<forall>c. ingest_fn env u c h s url depth = (c, h, s, Inr ENTER_URL)"
    by (simp add: ingest_fn_def)
  then show ?thesis using True by (intro failed[of s "Inr ENTER_URL"]) (simp_all add: reports_success_simps)
next
  case False
  obtain s1 i where sd: "setdefault_id s u = (s1, i)" by (cases "setdefault_id s u")
  show ?thesis
  proof (cases "crawl_website env (with_scheme (strip (or_empty url))) depth")
    case (Inl e)
    with False sd have "\<forall>c. ingest_fn env u c h s url depth = (c, h, s1, Inr (crawl_failed e))"
      by (simp add: ingest_fn_def)
    then show ?thesis using sd Inl
      by (intro failed[of s1 "Inr (crawl_failed e)"]) (simp_all add: reports_success_simps)
  next
    case (Inr docs)
    show ?thesis
    proof (cases "docs = []")
      case True
      with Inr False sd have "\<forall>c. ingest_fn env u c h s url depth = (c, h, s1, Inr NO_PAGES)"
        by (simp add: ingest_fn_def)
      then show ?thesis using sd Inr True
        by (intro failed[of s1 "Inr NO_PAGES"]) (simp_all add: reports_success_simps)
    next
      case ne: False
      show ?thesis
      proof (cases "embed_documents env (map page_content (split_documents env SPLITTER docs))")
        case (Some e)
        with ne Inr False sd have "\<forall>c. ingest_fn env u c h s url depth = (c, h, s1, Inl e)"
          by (simp add: ingest_fn_def build_vectorstore_def from_documents_def)
        then show ?thesis using sd Inr Some
          by (intro failed[of s1 "Inl e"]) (simp_all add: reports_success_simps)
      next
        case None
        show ?thesis
        proof (cases "split_documents env SPLITTER docs = []")
          case True
          with None ne Inr False sd
          have "\<forall>c. ingest_fn env u c h s url depth = (c, h, s1, Inl EMPTY_ADD)"
            by (simp add: ingest_fn_def build_vectorstore_def from_documents_def)
          then show ?thesis using sd Inr True
            by (intro failed[of s1 "Inl EMPTY_ADD"]) (simp_all add: reports_success_simps)
        next
          case chunks: False
          with None ne Inr False sd have "\<forall>c. ingest_fn env u c h s url depth =
           (c(py ''session-'' @ snd (setdefault_id s u) :=
                c (py ''session-'' @ snd (setdefault_id s u)) @ split_documents env SPLITTER docs),
            \<lparr>cells = (cells h)(fresh h := []), fresh = Suc (fresh h)\<rparr>,
            (fst (setdefault_id s u))
              \<lparr>qa_chain := Some (make_qa_chain
                  \<lparr>collection_name = py ''session-'' @ snd (setdefault_id s u)\<rparr>),
               history := Some (fresh h)\<rparr>,
            Inr (indexed (length docs) (with_scheme (strip (or_empty url)))))"
            by (simp add: ingest_fn_def build_vectorstore_def from_documents_def alloc_def)
          then show ?thesis using False Inr ne None chunks by (intro succeeded[of docs])
        qed
      qed
    qed
  qed
qed

text \<open>
  Claim C10. A call of \<open>ingest_fn\<close> reports success exactly when the URL is not blank,
  the crawl returned at least one document, the splitter made at least one chunk of the
  documents and the embedding did not raise. When it does, the \<^verbatim>\<open>history\<close> of the
  dictionary is a new list, which is empty, and every other list of the heap is as it
  was; when it does not (a blank URL, a crawl that raised or found nothing, an exception
  of the index construction, which leaves \<open>ingest_fn\<close>), the dictionary has the
  \<^verbatim>\<open>history\<close> and the \<^verbatim>\<open>qa_chain\<close> it had and the heap and the collections are
  unchanged.
\<close>

theorem ingest_resets_history:
  assumes "ingest_fn env u c h s url depth = (c1, h1, s1, out)"
  shows
   "(reports_success out \<longleftrightarrow>
       strip (or_empty url) \<noteq> [] \<and>
       (\<exists>docs. docs \<noteq> [] \<and>
          crawl_website env (with_scheme (strip (or_empty url))) depth = Inr docs \<and>
          split_documents env SPLITTER docs \<noteq> [] \<and>
          embed_documents env (map page_content (split_documents env SPLITTER docs)) = None)) \<and>
    (reports_success out \<longrightarrow>
       history s1 = Some (fresh h) \<and> cells h1 (fresh h) = [] \<and> fresh h1 = Suc (fresh h) \<and>
       (\<forall>r. r \<noteq> fresh h \<longrightarrow> cells h1 r = cells h r) \<and> qa_chain s1 \<noteq> None) \<and>
    (\<not> reports_success out \<longrightarrow>
       history s1 = history s \<and> qa_chain s1 = qa_chain s \<and> h1 = h \<and> c1 = c)"
proof (cases rule: ingest_fn_cases[of env u h s url depth])
  case (failed s2 out2)
  then have eq: "s1 = s2" "out = out2" "h1 = h" "c1 = c" using assms by auto
  have "history s2 = history s" "qa_chain s2 = qa_chain s"
    using failed(3) by (auto simp: setdefault_id_keeps)
  with failed eq show ?thesis by auto
next
  case (succeeded docs)
  with assms have "out = Inr (indexed (length docs) (with_scheme (strip (or_empty url))))"
    and "h1 = \<lparr>cells = (cells h)(fresh h := []), fresh = Suc (fresh h)\<rparr>"
    and "history s1 = Some (fresh h)" and "qa_chain s1 \<noteq> None"
    by auto
  with succeeded(1-5) show ?thesis by (auto simp: reports_success_simps)
qed

lemma ingest_b_after_a:
  "ingest_fn stub_env (py ''u1'') indexed_collections indexed_heap indexed_state
       (Some (py ''https://b.test'')) 1 =
     (indexed_collections(py ''session-u0'' :=
          site_a @ [page (py ''https://b.test'') (py ''beta'')]),
      \<lparr>cells = (cells indexed_heap)(1 := []), fresh = Suc 1\<rparr>,
      indexed_state\<lparr>history := Some 1\<rparr>,
      Inr (indexed 1 (py ''https://b.test'')))"
proof -
  have url: "strip (or_empty (Some (py ''https://b.test''))) = py ''https://b.test''"
    by (simp add: or_empty_def strip_literals)
  have crawl: "crawl_website stub_env (py ''https://b.test'') 1 =
      Inr [page (py ''https://b.test'') (py ''beta'')]"
    by (simp add: crawl_website_def stub_env_def stub_load_def set_source_def page_def)
       (simp add: py_def)
  have split: "split_documents stub_env SPLITTER [page (py ''https://b.test'') (py ''beta'')] =
      [page (py ''https://b.test'') (py ''beta'')]"
    by (simp add: split_documents_def stub_env_def page_def)
  have embed: "embed_documents stub_env x = None" for x by (simp add: stub_env_def)
  have sd: "setdefault_id indexed_state (py ''u1'') = (indexed_state, py ''u0'')"
    by (simp add: setdefault_id_def indexed_state_def)
  have name: "py ''session-'' @ py ''u0'' = py ''session-u0''" by (simp add: py_def)
  have st: "indexed_state\<lparr>qa_chain := Some (make_qa_chain \<lparr>collection_name = py ''session-u0''\<rparr>),
                history := Some (Suc 0)\<rparr> = indexed_state\<lparr>history := Some (Suc 0)\<rparr>"
    by (simp add: indexed_state_def)
  have ne: "py ''https://b.test'' \<noteq> []" by (simp add: py_def)
  show ?thesis
    using ne
    by (simp add: ingest_fn_def url with_scheme_literals crawl sd build_vectorstore_def
          from_documents_def split embed name alloc_def indexed_heap_def indexed_collections_def
          st Let_def)
qed

theorem ingest_resets_history_witness:
  "ingest_fn stub_env (py ''u1'') indexed_collections indexed_heap indexed_state
       (Some (py ''https://b.test'')) 1 =
     (indexed_collections(py ''session-u0'' :=
          site_a @ [page (py ''https://b.test'') (py ''beta'')]),
      \<lparr>cells = (cells indexed_heap)(1 := []), fresh = Suc 1\<rparr>,
      indexed_state\<lparr>history := Some 1\<rparr>,
      Inr (indexed 1 (py ''https://b.test''))) \<and>
   reports_success (Inr (indexed 1 (py ''https://b.test''))) \<and>
   cells indexed_heap 0 = [(py ''what?'', py ''alpha'')] \<and>
   history indexed_state = Some 0 \<and>
   history (indexed_state\<lparr>history := Some 1\<rparr>) = Some (fresh indexed_heap) \<and>
   cells \<lparr>cells = (cells indexed_heap)(1 := []), fresh = Suc 1\<rparr> (fresh indexed_heap) = []"
proof -
  have ok: "reports_success (Inr (indexed 1 (py ''https://b.test'')))"
    by (simp add: reports_success_simps)
  with ingest_resets_history[OF ingest_b_after_a]
  have "history (indexed_state\<lparr>history := Some 1\<rparr>) = Some (fresh indexed_heap) \<and>
     cells \<lparr>cells = (cells indexed_heap)(1 := []), fresh = Suc 1\<rparr> (fresh indexed_heap) = []"
    by blast
  moreover have "cells indexed_heap 0 = [(py ''what?'', py ''alpha'')]"
    by (simp add: indexed_heap_def)
  moreover have "history indexed_state = Some 0" by (simp add: indexed_state_def)
  ultimately show ?thesis using ok ingest_b_after_a by blast
qed

text \<open>
  A page that is one space. The loader of the library returns it as a document, the
  splitter of the library makes no chunk of it, and the vector store refuses to add
  nothing: the exception leaves \<open>ingest_fn\<close>, which reports nothing, and the session
  keeps the index and the history it had.
\<close>

lemma blank_page_ingest_raises:
  "ingest_fn library_env (py ''u1'') indexed_collections indexed_heap indexed_state
       (Some (py ''https://blank.test'')) 1 =
     (indexed_collections, indexed_heap, indexed_state, Inl EMPTY_ADD)"
proof -
  have url: "strip (or_empty (Some (py ''https://blank.test''))) = py ''https://blank.test''"
    by (simp add: or_empty_def strip_def py_def py_isspace_def)
  have scheme: "with_scheme (py ''https://blank.test'') = py ''https://blank.test''"
    by (simp add: with_scheme_def py_def)
  have get: "get stub_web (py ''https://blank.test'') 10 = Inr (py '' '')"
    by (simp add: stub_web_def stub_get_def) (simp add: py_def)
  have space: "py '' '' \<noteq> []" by (simp add: py_def)
  have "load library_env \<lparr>root = py ''https://blank.test'', max_depth = 1, timeout = 10\<rparr> =
      Inr [page (py ''https://blank.test'') (py '' '')]"
    unfolding library_env_load
    by (simp add: recursive_url_loader_def get stub_web_fields bs4_extract_def space page_def)
  then have crawl: "crawl_website library_env (py ''https://blank.test'') 1 =
      Inr [page (py ''https://blank.test'') (py '' '')]"
    by (simp add: crawl_website_def set_source_def page_def)
  have "recursive_split_text 512 64 (py '' '') = []"
    by (simp add: recursive_split_text_def separators_def split_text_with_regex_def
          merge_splits_def join_docs_def strip_def py_isspace_def py_def)
  then have split: "split_documents library_env SPLITTER
      [page (py ''https://blank.test'') (py '' '')] = []"
    by (simp add: split_documents_def library_env_def langchain_env_def SPLITTER_def page_def)
  have embed: "embed_documents library_env x = None" for x
    by (simp add: library_env_def langchain_env_def stub_env_def)
  have sd: "setdefault_id indexed_state (py ''u1'') = (indexed_state, py ''u0'')"
    by (simp add: setdefault_id_def indexed_state_def)
  have ne: "py ''https://blank.test'' \<noteq> []" by (simp add: py_def)
  show ?thesis
    using ne
    by (simp add: ingest_fn_def url scheme crawl sd build_vectorstore_def from_documents_def
          split embed Let_def)
qed

section \<open>One question on a session that has an index\<close>

lemma chat_begin_index:
  assumes "qa_chain s = Some qa" and "history s = Some r" and "strip (or_empty user_msg) \<noteq> []"
  shows "chat_begin h s user_msg =
     (list_append h r (strip (or_empty user_msg), THINKING),
      (s, cells h r @ [(strip (or_empty user_msg), THINKING)]),
      Awaiting (strip (or_empty user_msg)) r)"
  using assms by (simp add: chat_begin_def get_history_def list_append_def Let_def)

lemma chat_end_last:
  assumes "cells h r = xs @ [t]"
  shows "chat_end h s q r res =
     Inr (h\<lparr>cells := (cells h)(r := xs @ [(q, answer_of res)])\<rparr>, (s, xs @ [(q, answer_of res)]))"
  using assms by (simp add: chat_end_def set_last_def)

lemma chat_fn_index:
  assumes "qa_chain s = Some qa" and "history s = Some r" and "strip (or_empty user_msg) \<noteq> []"
  shows "chat_fn env c h s user_msg =
     \<lparr>heap_after = h\<lparr>cells := (cells h)(r := cells h r @
          [(strip (or_empty user_msg), answer_of (invoke env c qa (strip (or_empty user_msg))))])\<rparr>,
      yielded =
        [(s, cells h r @ [(strip (or_empty user_msg), THINKING)]),
         (s, cells h r @
          [(strip (or_empty user_msg), answer_of (invoke env c qa (strip (or_empty user_msg))))])],
      submitted = [strip (or_empty user_msg)],
      raised = None\<rparr>"
proof -
  let ?q = "strip (or_empty user_msg)"
  have "cells (list_append h r (?q, THINKING)) r = cells h r @ [(?q, THINKING)]"
    by (simp add: list_append_def)
  from chat_end_last[OF this, of s ?q "chat_invoke env c s ?q"]
  show ?thesis
    using assms
    by (simp add: chat_fn_def chat_begin_index[OF assms] chat_invoke_def list_append_def)
qed

section \<open>The stand-in for the language model\<close>

lemma stub_generate_echo:
  "stub_generate m (stuff_prompt (make_qa_chain vs) docs q) = Inr FALLBACK"
  by (simp add: stub_generate_def stuff_prompt_def format_prompt_def make_qa_chain_def
        SAFE_PROMPT_def FALLBACK_def py_def)

lemma stub_search: "map ((!) xs) (take n [0 ..< length xs]) = take n xs"
  by (simp add: take_map[symmetric] map_nth)

lemma invoke_stub:
  "invoke stub_env c (make_qa_chain vs) q =
     Inr \<lparr>query = q, result = FALLBACK, source_documents = take 4 (c (collection_name vs))\<rparr>"
proof -
  have "get_relevant_documents stub_env c (qa_retriever (make_qa_chain vs)) q =
      Inr (take 4 (c (collection_name vs)))"
    by (simp add: get_relevant_documents_def stub_env_def make_qa_chain_def stub_search Let_def)
  moreover have "generate stub_env = stub_generate" by (simp add: stub_env_def)
  ultimately show ?thesis by (simp add: invoke_def stub_generate_echo)
qed


section \<open>Failure of the chain\<close>

text \<open>
  Claim C8. When the chain raises for a question (the language model or the search, a
  timeout or any other exception), \<open>chat_fn\<close> raises nothing: it yields the pending
  turn and then the same turn with the text made of the warning sign, the name of the
  exception type and its message. The dictionary is the same afterwards, and a later
  question on the session is answered as usual: its turn follows the failed one and
  holds the result of the chain.
\<close>

theorem collaborator_failure_becomes_answer:
  assumes "qa_chain s = Some qa" and "history s = Some r" and "strip (or_empty user_msg) \<noteq> []"
    and "invoke env c qa (strip (or_empty user_msg)) = Inl e"
  shows "raised (chat_fn env c h s user_msg) = None \<and>
         yielded (chat_fn env c h s user_msg) =
           [(s, cells h r @ [(strip (or_empty user_msg), THINKING)]),
            (s, cells h r @ [(strip (or_empty user_msg),
                             WARN @ py '' '' @ exn_type e @ py '': '' @ exn_msg e)])] \<and>
         (\<forall>env' c' m res.
            strip (or_empty m) \<noteq> [] \<and> invoke env' c' qa (strip (or_empty m)) = Inr res \<longrightarrow>
            raised (chat_fn env' c' (heap_after (chat_fn env c h s user_msg)) s m) = None \<and>
            yielded (chat_fn env' c' (heap_after (chat_fn env c h s user_msg)) s m) =
              [(s, cells h r @
                   [(strip (or_empty user_msg), WARN @ py '' '' @ exn_type e @ py '': '' @ exn_msg e),
                    (strip (or_empty m), THINKING)]),
               (s, cells h r @
                   [(strip (or_empty user_msg), WARN @ py '' '' @ exn_type e @ py '': '' @ exn_msg e),
                    (strip (or_empty m), result res)])])"
proof -
  have first: "chat_fn env c h s user_msg =
     \<lparr>heap_after = h\<lparr>cells := (cells h)(r := cells h r @
          [(strip (or_empty user_msg), failed_answer e)])\<rparr>,
      yielded =
        [(s, cells h r @ [(strip (or_empty user_msg), THINKING)]),
         (s, cells h r @ [(strip (or_empty user_msg), failed_answer e)])],
      submitted = [strip (or_empty user_msg)],
      raised = None\<rparr>"
    using chat_fn_index[OF assms(1-3), of env c h] assms(4) by (simp add: answer_of_def)
  have later: "chat_fn env' c' (heap_after (chat_fn env c h s user_msg)) s m =
     \<lparr>heap_after = (heap_after (chat_fn env c h s user_msg))
        \<lparr>cells := (cells (heap_after (chat_fn env c h s user_msg)))
           (r := cells (heap_after (chat_fn env c h s user_msg)) r @
              [(strip (or_empty m), result res)])\<rparr>,
      yielded =
        [(s, cells (heap_after (chat_fn env c h s user_msg)) r @ [(strip (or_empty m), THINKING)]),
         (s, cells (heap_after (chat_fn env c h s user_msg)) r @
             [(strip (or_empty m), result res)])],
      submitted = [strip (or_empty m)],
      raised = None\<rparr>"
    if "strip (or_empty m) \<noteq> []" and "invoke env' c' qa (strip (or_empty m)) = Inr res"
    for env' c' m res
    using chat_fn_index[OF assms(1,2) that(1), of env' c' "heap_after (chat_fn env c h s user_msg)"]
      that(2)
    by (simp add: answer_of_def)
  have msg: "failed_answer e = WARN @ py '' '' @ exn_type e @ py '': '' @ exn_msg e"
    by (simp add: failed_answer_def)
  show ?thesis
  proof (intro conjI allI impI)
    show "raised (chat_fn env c h s user_msg) = None" by (simp add: first)
    show "yielded (chat_fn env c h s user_msg) =
           [(s, cells h r @ [(strip (or_empty user_msg), THINKING)]),
            (s, cells h r @ [(strip (or_empty user_msg),
                             WARN @ py '' '' @ exn_type e @ py '': '' @ exn_msg e)])]"
      by (simp add: first msg)
  next
    fix env' c' m res
    assume a: "strip (or_empty m) \<noteq> [] \<and> invoke env' c' qa (strip (or_empty m)) = Inr res"
    then show "raised (chat_fn env' c' (heap_after (chat_fn env c h s user_msg)) s m) = None"
      using later[of m env' c' res] by simp
    from a show "yielded (chat_fn env' c' (heap_after (chat_fn env c h s user_msg)) s m) =
              [(s, cells h r @
                   [(strip (or_empty user_msg), WARN @ py '' '' @ exn_type e @ py '': '' @ exn_msg e),
                    (strip (or_empty m), THINKING)]),
               (s, cells h r @
                   [(strip (or_empty user_msg), WARN @ py '' '' @ exn_type e @ py '': '' @ exn_msg e),
                    (strip (or_empty m), result res)])]"
      using later[of m env' c' res] by (simp add: first msg)
  qed
qed

lemma invoke_timeout:
  "invoke timeout_env c (make_qa_chain vs) q = Inl (Exn (py ''TimeoutError'') (py ''timed out''))"
  by (simp add: invoke_def get_relevant_documents_def timeout_env_def stub_env_def Let_def)

theorem collaborator_failure_becomes_answer_witness:
  "invoke timeout_env indexed_collections (make_qa_chain \<lparr>collection_name = py ''session-u0''\<rparr>)
       (py ''again?'') = Inl (Exn (py ''TimeoutError'') (py ''timed out'')) \<and>
   raised (chat_fn timeout_env indexed_collections indexed_heap indexed_state
             (Some (py ''again?''))) = None \<and>
   yielded (chat_fn timeout_env indexed_collections indexed_heap indexed_state
              (Some (py ''again?''))) =
     [(indexed_state, [(py ''what?'', py ''alpha''), (py ''again?'', THINKING)]),
      (indexed_state, [(py ''what?'', py ''alpha''),
                       (py ''again?'', WARN @ py '' TimeoutError: timed out'')])] \<and>
   yielded (chat_fn stub_env indexed_collections
              (heap_after (chat_fn timeout_env indexed_collections indexed_heap indexed_state
                             (Some (py ''again?''))))
              indexed_state (Some (py ''what?''))) =
     [(indexed_state, [(py ''what?'', py ''alpha''),
                       (py ''again?'', WARN @ py '' TimeoutError: timed out''),
                       (py ''what?'', THINKING)]),
      (indexed_state, [(py ''what?'', py ''alpha''),
                       (py ''again?'', WARN @ py '' TimeoutError: timed out''),
                       (py ''what?'', FALLBACK)])]"
proof -
  have a: "qa_chain indexed_state = Some (make_qa_chain \<lparr>collection_name = py ''session-u0''\<rparr>)"
    and b: "history indexed_state = Some 0"
    by (simp_all add: indexed_state_def)
  have q: "strip (or_empty (Some (py ''again?''))) = py ''again?''"
    and q2: "strip (or_empty (Some (py ''what?''))) = py ''what?''"
    by (simp_all add: or_empty_def strip_literals)
  have c: "strip (or_empty (Some (py ''again?''))) \<noteq> []"
    and c2: "strip (or_empty (Some (py ''what?''))) \<noteq> []"
    unfolding q q2 by (simp_all add: py_def)
  have d: "invoke timeout_env indexed_collections
      (make_qa_chain \<lparr>collection_name = py ''session-u0''\<rparr>)
      (strip (or_empty (Some (py ''again?'')))) = Inl (Exn (py ''TimeoutError'') (py ''timed out''))"
    by (rule invoke_timeout)
  have w: "WARN @ py '' '' @ py ''TimeoutError'' @ py '': '' @ py ''timed out'' =
      WARN @ py '' TimeoutError: timed out''"
    by (simp add: py_def)
  note T = collaborator_failure_becomes_answer[OF a b c d, of indexed_heap]
  have one: "raised (chat_fn timeout_env indexed_collections indexed_heap indexed_state
             (Some (py ''again?''))) = None"
    using T by blast
  have two: "yielded (chat_fn timeout_env indexed_collections indexed_heap indexed_state
              (Some (py ''again?''))) =
     [(indexed_state, [(py ''what?'', py ''alpha''), (py ''again?'', THINKING)]),
      (indexed_state, [(py ''what?'', py ''alpha''),
                       (py ''again?'', WARN @ py '' TimeoutError: timed out'')])]"
    using T[THEN conjunct2, THEN conjunct1] by (simp add: q w indexed_heap_def)
  have "yielded (chat_fn stub_env indexed_collections
              (heap_after (chat_fn timeout_env indexed_collections indexed_heap indexed_state
                             (Some (py ''again?''))))
              indexed_state (Some (py ''what?''))) =
     [(indexed_state, cells indexed_heap 0 @
         [(strip (or_empty (Some (py ''again?''))),
           WARN @ py '' '' @ exn_type (Exn (py ''TimeoutError'') (py ''timed out'')) @ py '': '' @
           exn_msg (Exn (py ''TimeoutError'') (py ''timed out''))),
          (strip (or_empty (Some (py ''what?''))), THINKING)]),
      (indexed_state, cells indexed_heap 0 @
         [(strip (or_empty (Some (py ''again?''))),
           WARN @ py '' '' @ exn_type (Exn (py ''TimeoutError'') (py ''timed out'')) @ py '': '' @
           exn_msg (Exn (py ''TimeoutError'') (py ''timed out''))),
          (strip (or_empty (Some (py ''what?''))),
           result \<lparr>query = py ''what?'', result = FALLBACK,
                    source_documents = take 4 (indexed_collections (py ''session-u0''))\<rparr>)])]"
    using T[THEN conjunct2, THEN conjunct2, rule_format,
        of "Some (py ''what?'')" stub_env indexed_collections
        "\<lparr>query = py ''what?'', result = FALLBACK,
           source_documents = take 4 (indexed_collections (py ''session-u0''))\<rparr>"]
      c2 invoke_stub[of indexed_collections "\<lparr>collection_name = py ''session-u0''\<rparr>" "py ''what?''"]
    by (simp add: q2)
  then have three: "yielded (chat_fn stub_env indexed_collections
              (heap_after (chat_fn timeout_env indexed_collections indexed_heap indexed_state
                             (Some (py ''again?''))))
              indexed_state (Some (py ''what?''))) =
     [(indexed_state, [(py ''what?'', py ''alpha''),
                       (py ''again?'', WARN @ py '' TimeoutError: timed out''),
                       (py ''what?'', THINKING)]),
      (indexed_state, [(py ''what?'', py ''alpha''),
                       (py ''again?'', WARN @ py '' TimeoutError: timed out''),
                       (py ''what?'', FALLBACK)])]"
    by (simp add: q q2 w indexed_heap_def)
  from d one two three show ?thesis by (simp add: q)
qed


section \<open>The prompt\<close>

lemma sublist_middle: "sublist xs ys \<Longrightarrow> sublist xs (a @ ys @ b)"
proof -
  assume "sublist xs ys"
  then obtain ps ss where "ys = ps @ xs @ ss" by (auto simp: sublist_def)
  then have "a @ ys @ b = (a @ ps) @ xs @ (ss @ b)" by simp
  then show ?thesis unfolding sublist_def by blast
qed

lemma sublist_join: "x \<in> set xs \<Longrightarrow> sublist x (join sep xs)"
proof (induction sep xs rule: join.induct)
  case (1 sep)
  then show ?case by simp
next
  case (2 sep y)
  then show ?case by simp
next
  case (3 sep y z zs)
  show ?case
  proof (cases "x = y")
    case True
    then show ?thesis by simp
  next
    case False
    with 3 have "sublist x (join sep (z # zs))" by simp
    from sublist_middle[OF this, of "y @ sep" "[]"] show ?thesis by simp
  qed
qed

lemma stuff_prompt_safe:
  "stuff_prompt (make_qa_chain vs) docs q =
     py ''Use ONLY the context below to answer the question. '' @
     py ''If the answer is not in the context, reply exactly: '' @
     [39] @ FALLBACK @ [39] @ [10, 10] @
     py ''Context:'' @ [10] @ join [10, 10] (map page_content docs) @ [10, 10] @
     py ''Question: '' @ q @ [10] @ py ''Answer:''"
proof -
  have "[py ''context'' \<mapsto> cx, py ''question'' \<mapsto> q] (py ''context'') = Some cx" for cx
    by (simp add: py_def)
  then show ?thesis
    by (simp add: stuff_prompt_def format_prompt_def make_qa_chain_def SAFE_PROMPT_def
          FALLBACK_def)
qed

lemma retrieved_from_collection:
  assumes "get_relevant_documents env c r q = Inr docs"
  shows "set docs \<subseteq> set (c (collection_name (vstore r))) \<and> length docs \<le> k r"
proof -
  obtain order where
    docs: "docs = map (\<lambda>i. c (collection_name (vstore r)) ! i)
       (take (k r) (filter (\<lambda>i. i < length (c (collection_name (vstore r)))) order))"
    using assms by (auto simp: get_relevant_documents_def Let_def split: sum.splits)
  have "set (take (k r) (filter (\<lambda>i. i < length (c (collection_name (vstore r)))) order))
      \<subseteq> {i. i < length (c (collection_name (vstore r)))}"
    using set_take_subset[of "k r"] by fastforce
  then show ?thesis unfolding docs by auto
qed

text \<open>
  Claim C7. For a chain made by \<open>make_qa_chain\<close> and a question for which the search
  returned \<open>docs\<close> (at most four chunks of the collection of the chain): the chain gives
  the language model \<^verbatim>\<open>mistral:7b\<close> one prompt and returns its text unchanged as the
  result. The prompt is the instruction to use only the context, the instruction to reply
  exactly with the quoted sentence \<open>FALLBACK\<close> when the answer is not in the context, the
  texts of the retrieved chunks joined by empty lines, and the question as it was asked;
  so it contains every retrieved text and the question. With the stand-in for the
  language model, which replies with the sentence the prompt quotes, the result is
  exactly \<open>FALLBACK\<close>.
\<close>

theorem prompt_grounded_with_fallback:
  assumes "get_relevant_documents env c (qa_retriever (make_qa_chain vs)) q = Inr docs"
  shows
   "invoke env c (make_qa_chain vs) q =
      (case generate env LLM_MODEL (stuff_prompt (make_qa_chain vs) docs q) of
         Inl e \<Rightarrow> Inl e
       | Inr reply \<Rightarrow> Inr \<lparr>query = q, result = reply, source_documents = docs\<rparr>) \<and>
    stuff_prompt (make_qa_chain vs) docs q =
      py ''Use ONLY the context below to answer the question. '' @
      py ''If the answer is not in the context, reply exactly: '' @
      [39] @ py ''I don't know based on the provided website content.'' @ [39] @ [10, 10] @
      py ''Context:'' @ [10] @ join [10, 10] (map page_content docs) @ [10, 10] @
      py ''Question: '' @ q @ [10] @ py ''Answer:'' \<and>
    (\<forall>d\<in>set docs. sublist (page_content d) (stuff_prompt (make_qa_chain vs) docs q)) \<and>
    sublist q (stuff_prompt (make_qa_chain vs) docs q) \<and>
    set docs \<subseteq> set (c (collection_name vs)) \<and> length docs \<le> 4 \<and>
    FALLBACK = py ''I don't know based on the provided website content.'' \<and>
    (generate env = stub_generate \<longrightarrow>
       invoke env c (make_qa_chain vs) q =
         Inr \<lparr>query = q, result = FALLBACK, source_documents = docs\<rparr>)"
proof -
  let ?P = "stuff_prompt (make_qa_chain vs) docs q"
  let ?J = "join [10, 10] (map page_content docs)"
  have run: "invoke env c (make_qa_chain vs) q =
      (case generate env LLM_MODEL ?P of
         Inl e \<Rightarrow> Inl e
       | Inr reply \<Rightarrow> Inr \<lparr>query = q, result = reply, source_documents = docs\<rparr>)"
    using assms by (simp add: invoke_def) (simp add: make_qa_chain_def)
  have shape: "?P =
      py ''Use ONLY the context below to answer the question. '' @
      py ''If the answer is not in the context, reply exactly: '' @
      [39] @ py ''I don't know based on the provided website content.'' @ [39] @ [10, 10] @
      py ''Context:'' @ [10] @ join [10, 10] (map page_content docs) @ [10, 10] @
      py ''Question: '' @ q @ [10] @ py ''Answer:''"
    unfolding stuff_prompt_safe FALLBACK_def ..
  obtain pre mid post where parts: "?P = pre @ ?J @ mid @ q @ post"
    using stuff_prompt_safe[of vs docs q] by (metis append_assoc)
  have chunks: "\<forall>d\<in>set docs. sublist (page_content d) ?P"
  proof
    fix d assume "d \<in> set docs"
    then have "sublist (page_content d) ?J" by (intro sublist_join) simp
    from sublist_middle[OF this, of pre "mid @ q @ post"] show "sublist (page_content d) ?P"
      by (simp only: parts)
  qed
  have "?P = (pre @ ?J @ mid) @ q @ post" by (simp only: parts append_assoc)
  then have question: "sublist q ?P" unfolding sublist_def by blast
  have found: "set docs \<subseteq> set (c (collection_name vs))" "length docs \<le> 4"
    using retrieved_from_collection[OF assms] by (simp_all add: make_qa_chain_def)
  have stub: "generate env = stub_generate \<longrightarrow>
      invoke env c (make_qa_chain vs) q =
         Inr \<lparr>query = q, result = FALLBACK, source_documents = docs\<rparr>"
    using run by (simp add: stub_generate_echo)
  have sentence: "FALLBACK = py ''I don't know based on the provided website content.''"
    by (fact FALLBACK_def)
  show ?thesis
    by (intro conjI; fact run shape chunks question found stub sentence)
qed

theorem prompt_grounded_with_fallback_witness:
  "get_relevant_documents stub_env indexed_collections
      (qa_retriever (make_qa_chain \<lparr>collection_name = py ''session-u0''\<rparr>)) (py ''what?'') =
     Inr site_a \<and>
   generate stub_env = stub_generate \<and>
   invoke stub_env indexed_collections (make_qa_chain \<lparr>collection_name = py ''session-u0''\<rparr>)
      (py ''what?'') =
     Inr \<lparr>query = py ''what?'',
          result = py ''I don't know based on the provided website content.'',
          source_documents = site_a\<rparr> \<and>
   sublist (py ''alpha'')
     (stuff_prompt (make_qa_chain \<lparr>collection_name = py ''session-u0''\<rparr>) site_a (py ''what?''))"
proof -
  have a: "get_relevant_documents stub_env indexed_collections
      (qa_retriever (make_qa_chain \<lparr>collection_name = py ''session-u0''\<rparr>)) (py ''what?'') =
     Inr site_a"
    by (simp add: get_relevant_documents_def stub_env_def make_qa_chain_def Let_def
          indexed_collections_def site_a_def)
  have b: "generate stub_env = stub_generate" by (simp add: stub_env_def)
  have c: "page (py ''https://a.test'') (py ''alpha'') \<in> set site_a"
    by (simp add: site_a_def)
  note T = prompt_grounded_with_fallback[OF a]
  have "invoke stub_env indexed_collections (make_qa_chain \<lparr>collection_name = py ''session-u0''\<rparr>)
      (py ''what?'') =
     Inr \<lparr>query = py ''what?'', result = FALLBACK, source_documents = site_a\<rparr>"
    using T b by blast
  moreover have "sublist (page_content (page (py ''https://a.test'') (py ''alpha'')))
     (stuff_prompt (make_qa_chain \<lparr>collection_name = py ''session-u0''\<rparr>) site_a (py ''what?''))"
    using T c by blast
  ultimately show ?thesis using a b by (simp add: FALLBACK_def page_def)
qed

section \<open>Configuration\<close>

text \<open>
  Claim C9. The splitter is made with chunk size 512 and overlap 64, and
  \<open>build_vectorstore\<close> splits every document with these two values; the retriever of
  every chain searches with the type \<^verbatim>\<open>mmr\<close> and keeps 4 chunks, so a question gets at
  most 4; the thread pool has 4 workers; the crawl depth defaults to 2 (the parameter
  of \<open>crawl_website\<close> and the initial position of the slider) and the slider delivers
  only 1, 2 or 3, which \<open>ingest_fn\<close> passes to the loader as it is; and every call
  of the loader is made with the timeout 10.
\<close>

theorem configuration_values:
  "chunk_size SPLITTER = 512 \<and> chunk_overlap SPLITTER = 64 \<and>
   build_vectorstore env c docs i =
     from_documents env c
       (concat (map (\<lambda>d. map (\<lambda>t. d\<lparr>page_content := t\<rparr>) (split_text env 512 64 (page_content d)))
                    docs))
       (py ''session-'' @ i) \<and>
   search_type (qa_retriever (make_qa_chain vs)) = py ''mmr'' \<and>
   k (qa_retriever (make_qa_chain vs)) = 4 \<and>
   (\<forall>found. get_relevant_documents env c (qa_retriever (make_qa_chain vs)) q = Inr found \<longrightarrow>
      length found \<le> 4) \<and>
   max_workers EXECUTOR = 4 \<and>
   crawl_website_default_depth = 2 \<and>
   initial depth_slider = 2 \<and> maximum depth_slider = 3 \<and>
   slider_values depth_slider = [1, 2, 3] \<and>
   crawl_website env root_url depth =
     (case load env \<lparr>root = root_url, max_depth = depth, timeout = 10\<rparr> of
        Inl e \<Rightarrow> Inl (Exn (py ''RuntimeError'') (py ''RecursiveUrlLoader failed: '' @ exn_msg e))
      | Inr pages \<Rightarrow> Inr (map (set_source root_url) pages)) \<and>
   (\<forall>url. strip (or_empty url) \<noteq> [] \<longrightarrow>
      (\<forall>e. load env \<lparr>root = with_scheme (strip (or_empty url)), max_depth = depth,
                       timeout = 10\<rparr> = Inl e \<longrightarrow>
           snd (snd (snd (ingest_fn env u c h s url depth))) =
             Inr (crawl_failed (Exn (py ''RuntimeError'')
                    (py ''RecursiveUrlLoader failed: '' @ exn_msg e)))))"
proof -
  have retrieved: "length found \<le> 4"
    if "get_relevant_documents env c (qa_retriever (make_qa_chain vs)) q = Inr found" for found
    using retrieved_from_collection[OF that] by (simp add: make_qa_chain_def)
  have slider: "slider_values depth_slider = [1, 2, 3]"
  proof -
    have "[0 ..< 3] = [0, 1, 2::nat]" by (simp add: upt_rec)
    then show ?thesis by (simp add: slider_values_def depth_slider_def)
  qed
  have ingest: "snd (snd (snd (ingest_fn env u c h s url depth))) =
             Inr (crawl_failed (Exn (py ''RuntimeError'')
                    (py ''RecursiveUrlLoader failed: '' @ exn_msg e)))"
    if "strip (or_empty url) \<noteq> []"
      and "load env \<lparr>root = with_scheme (strip (or_empty url)), max_depth = depth,
                      timeout = 10\<rparr> = Inl e"
    for url e
    using that by (simp add: ingest_fn_def crawl_website_def Let_def split: prod.splits)
  have splitter: "chunk_size SPLITTER = 512 \<and> chunk_overlap SPLITTER = 64"
    by (simp add: SPLITTER_def)
  have build: "build_vectorstore env c docs i =
     from_documents env c
       (concat (map (\<lambda>d. map (\<lambda>t. d\<lparr>page_content := t\<rparr>) (split_text env 512 64 (page_content d)))
                    docs))
       (py ''session-'' @ i)"
    by (simp add: build_vectorstore_def split_documents_def SPLITTER_def)
  have search: "search_type (qa_retriever (make_qa_chain vs)) = py ''mmr'' \<and>
      k (qa_retriever (make_qa_chain vs)) = 4"
    by (simp add: make_qa_chain_def)
  have pool: "max_workers EXECUTOR = 4" by (simp add: EXECUTOR_def)
  have depth: "crawl_website_default_depth = 2 \<and> initial depth_slider = 2 \<and>
      maximum depth_slider = 3"
    by (simp add: crawl_website_default_depth_def depth_slider_def)
  have crawl: "crawl_website env root_url depth =
     (case load env \<lparr>root = root_url, max_depth = depth, timeout = 10\<rparr> of
        Inl e \<Rightarrow> Inl (Exn (py ''RuntimeError'') (py ''RecursiveUrlLoader failed: '' @ exn_msg e))
      | Inr pages \<Rightarrow> Inr (map (set_source root_url) pages))"
    by (simp add: crawl_website_def)
  from splitter build search retrieved pool depth slider crawl ingest show ?thesis
    by blast
qed

theorem configuration_values_witness:
  "get_relevant_documents stub_env indexed_collections
      (qa_retriever (make_qa_chain \<lparr>collection_name = py ''session-u0''\<rparr>)) (py ''what?'') =
     Inr site_a \<and>
   length site_a \<le> 4 \<and>
   strip (or_empty (Some (py ''down.test''))) = py ''down.test'' \<and>
   load stub_env \<lparr>root = py ''https://down.test'', max_depth = 3, timeout = 10\<rparr> =
     Inl (Exn (py ''ConnectionError'') (py ''unreachable'')) \<and>
   snd (snd (snd (ingest_fn stub_env (py ''u0'') indexed_collections empty_heap empty_state
                    (Some (py ''down.test'')) 3))) =
     Inr (crawl_failed (Exn (py ''RuntimeError'') (py ''RecursiveUrlLoader failed: unreachable'')))"
proof -
  have a: "get_relevant_documents stub_env indexed_collections
      (qa_retriever (make_qa_chain \<lparr>collection_name = py ''session-u0''\<rparr>)) (py ''what?'') =
     Inr site_a"
    by (simp add: get_relevant_documents_def stub_env_def make_qa_chain_def Let_def
          indexed_collections_def site_a_def)
  have q: "strip (or_empty (Some (py ''down.test''))) = py ''down.test''"
    by (simp add: or_empty_def strip_literals)
  have ne: "strip (or_empty (Some (py ''down.test''))) \<noteq> []"
    unfolding q by (simp add: py_def)
  have l: "load stub_env \<lparr>root = with_scheme (strip (or_empty (Some (py ''down.test'')))),
      max_depth = 3, timeout = 10\<rparr> = Inl (Exn (py ''ConnectionError'') (py ''unreachable''))"
    unfolding q with_scheme_literals
    by (simp add: stub_env_def stub_load_def) (simp add: py_def)
  note T = configuration_values[where env = stub_env and c = indexed_collections
      and vs = "\<lparr>collection_name = py ''session-u0''\<rparr>" and q = "py ''what?''"
      and depth = 3 and u = "py ''u0''" and h = empty_heap and s = empty_state]
  have "length site_a \<le> 4" using T a by blast
  moreover have "snd (snd (snd (ingest_fn stub_env (py ''u0'') indexed_collections empty_heap
      empty_state (Some (py ''down.test'')) 3))) =
     Inr (crawl_failed (Exn (py ''RuntimeError'')
        (py ''RecursiveUrlLoader failed: '' @
         exn_msg (Exn (py ''ConnectionError'') (py ''unreachable'')))))"
    using T ne l by blast
  moreover have "py ''RecursiveUrlLoader failed: '' @ py ''unreachable'' =
      py ''RecursiveUrlLoader failed: unreachable''"
    by (simp add: py_def)
  ultimately show ?thesis using a q l by (simp add: with_scheme_literals)
qed


section \<open>Sessions do not interfere\<close>

lemma ingest_fn_effect:
  "\<exists>d h1 s1 out.
     (\<forall>c. ingest_fn env u c h s url depth =
        (c(py ''session-'' @ snd (setdefault_id s u) :=
             c (py ''session-'' @ snd (setdefault_id s u)) @ d), h1, s1, out)) \<and>
     (sid s1 = sid s \<or> sid s1 = Some (snd (setdefault_id s u))) \<and>
     (tied s \<longrightarrow> tied s1)"
proof (cases rule: ingest_fn_cases[of env u h s url depth])
  case (failed s1 out)
  have "c(n := c n @ []) = c" for c :: chroma and n by simp
  with failed(1) have "\<forall>c. ingest_fn env u c h s url depth =
        (c(py ''session-'' @ snd (setdefault_id s u) :=
             c (py ''session-'' @ snd (setdefault_id s u)) @ []), h, s1, out)"
    by simp
  moreover have "sid s1 = sid s \<or> sid s1 = Some (snd (setdefault_id s u))"
    using failed(3) by (auto simp: setdefault_id_keeps)
  moreover have "tied s \<longrightarrow> tied s1"
    using failed(3) by (auto simp: tied_def setdefault_id_def split: option.splits)
  ultimately show ?thesis by blast
next
  case (succeeded docs)
  let ?s1 = "(fst (setdefault_id s u))
            \<lparr>qa_chain := Some (make_qa_chain
                \<lparr>collection_name = py ''session-'' @ snd (setdefault_id s u)\<rparr>),
             history := Some (fresh h)\<rparr>"
  have "sid ?s1 = Some (snd (setdefault_id s u))" by (simp add: setdefault_id_keeps)
  moreover from this have "tied ?s1" by (simp add: tied_def make_qa_chain_def)
  ultimately show ?thesis using succeeded(6) by blast
qed

lemma chat_begin_keeps: "chat_begin h s m = (h1, (s1, hist), nx) \<Longrightarrow> s1 = s"
  by (auto simp: chat_begin_def Let_def split: prod.splits if_splits)

lemma chat_end_keeps: "chat_end h s m r res = Inr (h1, (s1, hist)) \<Longrightarrow> s1 = s"
  by (auto simp: chat_end_def split: sum.splits)

lemma do_ask_dict [simp]: "dict (do_ask s m) = dict s"
  by (auto simp: do_ask_def split: prod.splits dest: chat_begin_keeps)

lemma do_run_dict [simp]: "dict (do_run env c s n) = dict s"
  by (simp add: do_run_def)

lemma do_resume_dict [simp]: "dict (do_resume s n) = dict s"
  by (auto simp: do_resume_def split: phase.splits sum.splits prod.splits dest: chat_end_keeps)

lemma do_clear_dict [simp]:
  "sid (dict (do_clear s)) = sid (dict s)" "qa_chain (dict (do_clear s)) = qa_chain (dict s)"
  by (auto simp: do_clear_def clear_chat_def alloc_def split: prod.splits)

lemma tied_clear [simp]: "tied (dict (do_clear s)) = tied (dict s)"
  by (simp add: tied_def split: option.splits)

text \<open>The chain of a session reads no collection but the one named after the session.\<close>

lemma do_run_agree:
  assumes "tied (dict s)" and "\<forall>x. sid (dict s) = Some x \<longrightarrow> x \<in> I"
    and "\<forall>x\<in>I. c (py ''session-'' @ x) = c' (py ''session-'' @ x)"
  shows "do_run env c s n = do_run env c' s n"
proof -
  have "chat_invoke env c (dict s) m = chat_invoke env c' (dict s) m" for m
  proof (cases "qa_chain (dict s)")
    case None
    then show ?thesis by (simp add: chat_invoke_def)
  next
    case (Some qa)
    then have "c (collection_name (vstore (qa_retriever qa))) =
               c' (collection_name (vstore (qa_retriever qa)))"
      using assms by (auto simp: tied_def split: option.splits)
    then have "get_relevant_documents env c (qa_retriever qa) m =
               get_relevant_documents env c' (qa_retriever qa) m"
      by (simp add: get_relevant_documents_def)
    with Some show ?thesis by (simp add: chat_invoke_def invoke_def)
  qed
  then show ?thesis by (simp add: do_run_def)
qed

text \<open>An event of another session, with an identifier that is not one of \<open>I\<close>.\<close>

lemma step_other:
  assumes "agree i I a b" and "j \<noteq> i" and "set (drawn e) \<inter> I = {}"
  shows "agree i I (perform env a (j, e)) b"
proof (cases e)
  case (Ingest url depth u)
  obtain d h1 s1 out where
    eff: "\<forall>c. ingest_fn env u c (mem (sessions a j)) (dict (sessions a j)) url depth =
        (c(py ''session-'' @ snd (setdefault_id (dict (sessions a j)) u) :=
             c (py ''session-'' @ snd (setdefault_id (dict (sessions a j)) u)) @ d), h1, s1, out)"
    and sd: "sid s1 = sid (dict (sessions a j)) \<or>
             sid s1 = Some (snd (setdefault_id (dict (sessions a j)) u))"
    using ingest_fn_effect[of env u "mem (sessions a j)" "dict (sessions a j)" url depth] by blast
  have out: "snd (setdefault_id (dict (sessions a j)) u) \<notin> I"
    using setdefault_id_cases[of "dict (sessions a j)" u] assms Ingest
    by (auto simp: agree_def)
  have "\<forall>x. sid s1 = Some x \<longrightarrow> x \<notin> I"
    using sd out assms(1,2) by (auto simp: agree_def)
  with assms(1,2) out show ?thesis
    by (auto simp: Ingest agree_def do_ingest_def eff)
next
  case (Ask m) with assms show ?thesis by (auto simp: agree_def)
next
  case (Run n) with assms show ?thesis by (auto simp: agree_def)
next
  case (Resume n) with assms show ?thesis by (auto simp: agree_def)
next
  case Clear with assms show ?thesis by (auto simp: agree_def)
qed

text \<open>The same event of the session itself, on both sides.\<close>

lemma step_own:
  assumes "agree i I a b" and "set (drawn e) \<subseteq> I"
  shows "agree i I (perform env a (i, e)) (perform env b (i, e))"
proof (cases e)
  case (Ingest url depth u)
  let ?s = "sessions a i"
  have same: "sessions b i = ?s" using assms(1) by (simp add: agree_def)
  obtain d h1 s1 out where
    eff: "\<forall>c. ingest_fn env u c (mem ?s) (dict ?s) url depth =
        (c(py ''session-'' @ snd (setdefault_id (dict ?s) u) :=
             c (py ''session-'' @ snd (setdefault_id (dict ?s) u)) @ d), h1, s1, out)"
    and sd: "sid s1 = sid (dict ?s) \<or> sid s1 = Some (snd (setdefault_id (dict ?s) u))"
    and td: "tied (dict ?s) \<longrightarrow> tied s1"
    using ingest_fn_effect[of env u "mem ?s" "dict ?s" url depth] by blast
  have own: "snd (setdefault_id (dict ?s) u) \<in> I"
    using setdefault_id_cases[of "dict ?s" u] assms Ingest by (auto simp: agree_def)
  have "\<forall>x. sid s1 = Some x \<longrightarrow> x \<in> I"
    using sd own assms(1) by (auto simp: agree_def)
  with assms(1) own td same show ?thesis
    by (auto simp: Ingest agree_def do_ingest_def eff)
next
  case (Ask m) with assms show ?thesis by (auto simp: agree_def)
next
  case (Run n)
  have "do_run env (collections a) (sessions a i) n = do_run env (collections b) (sessions a i) n"
    using assms(1) by (intro do_run_agree[where I = I]) (auto simp: agree_def)
  with assms Run show ?thesis by (auto simp: agree_def)
next
  case (Resume n) with assms show ?thesis by (auto simp: agree_def)
next
  case Clear with assms show ?thesis by (auto simp: agree_def)
qed

lemma uuids_Cons:
  "uuids (x # t) j = (if fst x = j then drawn (snd x) else []) @ uuids t j"
  by (simp add: uuids_def only_def)

lemma only_Cons: "only i (x # t) = (if fst x = i then x # only i t else only i t)"
  by (simp add: only_def)

lemma run_agree:
  assumes "agree i I a b"
    and "\<forall>j. j \<noteq> i \<longrightarrow> set (uuids t j) \<inter> I = {}"
    and "set (uuids t i) \<subseteq> I"
  shows "agree i I (run env a t) (run env b (only i t))"
  using assms
proof (induction t arbitrary: a b)
  case Nil
  then show ?case by (simp add: only_def)
next
  case (Cons x t)
  obtain j e where x: "x = (j, e)" by (cases x)
  have rest: "\<forall>j. j \<noteq> i \<longrightarrow> set (uuids t j) \<inter> I = {}" "set (uuids t i) \<subseteq> I"
  proof -
    show "\<forall>j. j \<noteq> i \<longrightarrow> set (uuids t j) \<inter> I = {}"
    proof (intro allI impI)
      fix k assume "k \<noteq> i"
      then have "set (uuids (x # t) k) \<inter> I = {}" using Cons.prems(2) by blast
      then show "set (uuids t k) \<inter> I = {}" by (auto simp: uuids_Cons)
    qed
    show "set (uuids t i) \<subseteq> I" using Cons.prems(3) by (auto simp: uuids_Cons)
  qed
  show ?case
  proof (cases "j = i")
    case True
    have "set (drawn e) \<subseteq> I" using Cons.prems(3) x True by (auto simp: uuids_Cons)
    then have "agree i I (perform env a (i, e)) (perform env b (i, e))"
      using Cons.prems(1) by (rule step_own[rotated])
    from Cons.IH[OF this rest] show ?thesis using x True by (simp add: only_Cons)
  next
    case False
    have "set (uuids (x # t) j) \<inter> I = {}" using Cons.prems(2) False by blast
    then have "set (drawn e) \<inter> I = {}" using x by (auto simp: uuids_Cons)
    then have "agree i I (perform env a (j, e)) b"
      using Cons.prems(1) False step_other by blast
    from Cons.IH[OF this rest] show ?thesis using x False by (simp add: only_Cons)
  qed
qed

lemma agree_init: "agree i I init init"
  by (simp add: agree_def init_def tied_def empty_state_def)

text \<open>
  Claim C1. Take any schedule of the process from its start: calls of the three
  handlers by any sessions, runs of chains on the thread pool and resumptions, in any
  order. If the identifiers that \<^verbatim>\<open>uuid4\<close> draws for other sessions differ from those it
  draws for session \<open>i\<close>, then session \<open>i\<close> ends exactly as in the schedule in which the
  other sessions do nothing: the same dictionary and history lists, the same results of
  its chains, retrieved chunks included, and the same statuses and histories shown to
  its requester; and the collection of session \<open>i\<close> holds the same chunks. So what a
  session retrieves and is shown owes nothing to the ingests and questions of another,
  however their calls interleave.
\<close>

theorem sessions_isolated:
  assumes "\<forall>j. j \<noteq> i \<longrightarrow> set (uuids t j) \<inter> set (uuids t i) = {}"
  shows "sessions (run env init t) i = sessions (run env init (only i t)) i \<and>
         (\<forall>x\<in>set (uuids t i).
            collections (run env init t) (py ''session-'' @ x) =
            collections (run env init (only i t)) (py ''session-'' @ x))"
  using run_agree[OF agree_init, of i t "set (uuids t i)" env] assms
  by (simp add: agree_def)


section \<open>One question, as the process takes it\<close>











section \<open>Schedules of the examples, evaluated\<close>

lemma stub_fields:
  "load stub_env = stub_load"
  "split_text stub_env = (\<lambda>size overlap t. [t])"
  "embed_documents stub_env = (\<lambda>texts. None)"
  by (simp_all add: stub_env_def)

lemmas run_defs =
  init_def empty_state_def empty_heap_def no_collections_def
  do_ingest_def do_ask_def do_run_def do_resume_def do_clear_def
  ingest_fn_def or_empty_def strip_def py_isspace_def with_scheme_def setdefault_id_def
  crawl_website_def set_source_def build_vectorstore_def from_documents_def
  split_documents_def SPLITTER_def alloc_def list_append_def set_last_def get_history_def
  chat_begin_def chat_invoke_def chat_end_def answer_of_def clear_chat_def
  stub_fields stub_load_def page_def invoke_stub py_def Let_def



text \<open>The same with a second ingest in between, which also gives the session a new list.\<close>

lemma ingest_during_ask_loses_turn:
  "shown (sessions (run stub_env init ingest_during_ask) 0) =
     [Status (indexed 1 (py ''https://a.test'')),
      Chat [(py ''first?'', THINKING)],
      Status (indexed 1 (py ''https://b.test'')),
      Chat [(py ''first?'', FALLBACK)],
      Chat [(py ''second?'', THINKING)]] \<and>
   history (dict (sessions (run stub_env init ingest_during_ask) 0)) = Some 1 \<and>
   cells (mem (sessions (run stub_env init ingest_during_ask) 0)) 1 =
     [(py ''second?'', THINKING)]"
  by (simp add: ingest_during_ask_def run_defs)

text \<open>
  And when two calls of \<open>chat_fn\<close> on one session overlap, which nothing in the notebook
  prevents. After an ingest, two questions are asked before either chain has returned;
  then both chains return and both calls are resumed. The second yield of the first call
  writes over the last entry, which is the pending turn of the second question: the
  requester is shown the first question twice and the second not at all, and when both
  calls are done the turn of the first question is still pending and its answer is
  nowhere.
\<close>

lemma overlapping_asks_lose_turn:
  "shown (sessions (run stub_env init overlapping_asks) 0) =
     [Status (indexed 1 (py ''https://a.test'')),
      Chat [(py ''first?'', THINKING)],
      Chat [(py ''first?'', THINKING), (py ''second?'', THINKING)],
      Chat [(py ''first?'', THINKING), (py ''first?'', FALLBACK)],
      Chat [(py ''first?'', THINKING), (py ''second?'', FALLBACK)]] \<and>
   map t_phase (tasks (sessions (run stub_env init overlapping_asks) 0)) = [Done, Done] \<and>
   cells (mem (sessions (run stub_env init overlapping_asks) 0)) 0 =
     [(py ''first?'', THINKING), (py ''second?'', FALLBACK)]"
  by (simp add: overlapping_asks_def run_defs)

text \<open>
  Claim C6 on the code. A session ingests the first site and then the second. The
  second call finds the \<^verbatim>\<open>id\<close> of the session in the dictionary, so it names the same
  collection, and \<open>from_documents\<close> adds the new chunks to the chunks the collection
  holds: afterwards the collection holds the chunks of both sites, and the chain made
  by the second ingest retrieves the chunk of the first site for the next question.
\<close>

theorem reingest_keeps_old_chunks:
  "collections (run stub_env init ingest_twice) (py ''session-u0'') =
     [page (py ''https://a.test'') (py ''alpha''), page (py ''https://b.test'') (py ''beta'')] \<and>
   shown (sessions (run stub_env init ingest_twice) 0) =
     [Status (indexed 1 (py ''https://a.test'')),
      Status (indexed 1 (py ''https://b.test'')),
      Chat [(py ''what?'', THINKING)]] \<and>
   map t_phase (tasks (sessions (run stub_env init ingest_twice) 0)) =
     [Returned (Inr \<lparr>query = py ''what?'', result = FALLBACK,
        source_documents =
          [page (py ''https://a.test'') (py ''alpha''),
           page (py ''https://b.test'') (py ''beta'')]\<rparr>)]"
  by (simp add: ingest_twice_def run_defs)

lemma two_sessions_uuids:
  "uuids two_sessions j = (if j = 0 then [py ''u0''] else if j = 1 then [py ''u1''] else [])"
  by (simp add: uuids_def only_def two_sessions_def)

lemma two_sessions_only:
  "only 0 two_sessions =
     [(0, Ingest (Some (py ''https://a.test'')) 1 (py ''u0'')),
      (0, Ask (Some (py ''what?''))), (0, Run 0), (0, Resume 0)]"
  by (simp add: only_def two_sessions_def)

lemma two_sessions_alone:
  "shown (sessions (run stub_env init (only 0 two_sessions)) 0) =
     [Status (indexed 1 (py ''https://a.test'')),
      Chat [(py ''what?'', THINKING)],
      Chat [(py ''what?'', FALLBACK)]] \<and>
   map t_phase (tasks (sessions (run stub_env init (only 0 two_sessions)) 0)) = [Done] \<and>
   collections (run stub_env init (only 0 two_sessions)) (py ''session-'' @ py ''u0'') =
     [page (py ''https://a.test'') (py ''alpha'')]"
  unfolding two_sessions_only by (simp add: run_defs)

theorem sessions_isolated_witness:
  "uuids two_sessions 0 = [py ''u0''] \<and> uuids two_sessions 1 = [py ''u1''] \<and>
   py ''u0'' \<noteq> py ''u1'' \<and>
   sessions (run stub_env init two_sessions) 0 =
     sessions (run stub_env init (only 0 two_sessions)) 0 \<and>
   shown (sessions (run stub_env init two_sessions) 0) =
     [Status (indexed 1 (py ''https://a.test'')),
      Chat [(py ''what?'', THINKING)],
      Chat [(py ''what?'', FALLBACK)]] \<and>
   map t_phase (tasks (sessions (run stub_env init two_sessions) 0)) = [Done] \<and>
   collections (run stub_env init two_sessions) (py ''session-'' @ py ''u0'') =
     [page (py ''https://a.test'') (py ''alpha'')]"
proof -
  have ne: "py ''u0'' \<noteq> py ''u1''" by (simp add: py_def)
  then have "\<forall>j. j \<noteq> 0 \<longrightarrow> set (uuids two_sessions j) \<inter> set (uuids two_sessions 0) = {}"
    by (simp add: two_sessions_uuids)
  from sessions_isolated[OF this, of stub_env]
  have same: "sessions (run stub_env init two_sessions) 0 =
      sessions (run stub_env init (only 0 two_sessions)) 0"
    and coll: "collections (run stub_env init two_sessions) (py ''session-'' @ py ''u0'') =
      collections (run stub_env init (only 0 two_sessions)) (py ''session-'' @ py ''u0'')"
    by (simp_all add: two_sessions_uuids)
  show ?thesis
    using ne two_sessions_alone by (simp add: same coll two_sessions_uuids)
qed


section \<open>Windows\<close>

lemma spec_windows_Nil [simp]: "spec_windows w ov [] = []"
  by (simp add: spec_windows.simps)

lemma spec_windows_short: "xs \<noteq> [] \<Longrightarrow> length xs \<le> w \<Longrightarrow> spec_windows w ov xs = [xs]"
  by (simp add: spec_windows.simps)

lemma spec_windows_le:
  "length xs \<le> w \<Longrightarrow> spec_windows w ov xs = (if xs = [] then [] else [xs])"
  by (simp add: spec_windows.simps)

lemma spec_windows_long:
  "w < length xs \<Longrightarrow> ov < w \<Longrightarrow>
   spec_windows w ov xs = take w xs # spec_windows w ov (drop (w - ov) xs)"
  by (subst spec_windows.simps) auto

lemma spec_windows_first:
  assumes "xs \<noteq> []" and "ov < w"
  obtains rest where "spec_windows w ov xs = take w xs # rest"
proof (cases "length xs \<le> w")
  case True
  with assms show ?thesis using that[of "[]"] by (simp add: spec_windows_short)
next
  case False
  with assms show ?thesis using that by (simp add: spec_windows_long)
qed

lemma spec_windows_added:
  assumes "ov < w"
  shows "concat (map (drop ov) (spec_windows w ov xs)) = drop ov xs"
proof (induction xs rule: length_induct)
  case (1 xs)
  show ?case
  proof (cases "length xs \<le> w")
    case True
    then show ?thesis by (simp add: spec_windows_le)
  next
    case False
    then have long: "w < length xs" by simp
    then have "length (drop (w - ov) xs) < length xs" using assms by simp
    with 1 have IH:
      "concat (map (drop ov) (spec_windows w ov (drop (w - ov) xs))) = drop ov (drop (w - ov) xs)"
      by blast
    have "drop ov (take w xs @ drop w xs) =
        drop ov (take w xs) @ drop (ov - length (take w xs)) (drop w xs)"
      by (rule drop_append)
    then have "drop ov xs = drop ov (take w xs) @ drop w xs"
      using long assms by simp
    then have "drop ov (take w xs) @ drop ov (drop (w - ov) xs) = drop ov xs"
      using assms by simp
    then show ?thesis using long assms IH by (simp add: spec_windows_long)
  qed
qed

lemma reconstruct_spec_windows:
  assumes "ov < w"
  shows "reconstruct ov (spec_windows w ov xs) = xs"
proof (cases "xs = [] \<or> length xs \<le> w")
  case True
  then have "length xs \<le> w" by auto
  then show ?thesis by (simp add: spec_windows_le)
next
  case False
  then have long: "w < length xs" by auto
  have "take w xs @ drop ov (drop (w - ov) xs) = xs" using assms by simp
  then show ?thesis
    using long assms by (simp add: spec_windows_long spec_windows_added)
qed

lemma overlapping_spec_windows:
  assumes "ov < w"
  shows "overlapping ov (spec_windows w ov xs)"
proof (induction xs rule: length_induct)
  case (1 xs)
  show ?case
  proof (cases "length xs \<le> w")
    case True
    then show ?thesis by (simp add: spec_windows_le)
  next
    case False
    then have long: "w < length xs" by simp
    let ?ys = "drop (w - ov) xs"
    have "length ?ys < length xs" using long assms by simp
    with 1 have IH: "overlapping ov (spec_windows w ov ?ys)" by blast
    have "?ys \<noteq> []" using long assms by simp
    then obtain rest where next_w: "spec_windows w ov ?ys = take w ?ys # rest"
      using assms by (rule spec_windows_first)
    have a: "ov \<le> length (take w xs)" using long assms by simp
    have b: "ov \<le> length (take w ?ys)" using long assms by simp
    have "drop (w - ov) (take w xs) = take ov ?ys"
      using assms by (simp add: drop_take)
    moreover have "take ov (take w ?ys) = take ov ?ys" using assms by (simp add: min_def)
    moreover have "length (take w xs) = w" using long by simp
    ultimately have c: "drop (length (take w xs) - ov) (take w xs) = take ov (take w ?ys)"
      by simp
    have "overlapping ov (take w xs # take w ?ys # rest)"
      using a b c IH unfolding next_w by simp
    then show ?thesis using long assms by (simp add: spec_windows_long next_w)
  qed
qed

lemma spec_windows_bounded:
  assumes "ov < w"
  shows "\<forall>v\<in>set (spec_windows w ov xs). length v \<le> w"
proof (induction xs rule: length_induct)
  case (1 xs)
  show ?case
  proof (cases "length xs \<le> w")
    case True
    then show ?thesis by (simp add: spec_windows_le)
  next
    case False
    then have long: "w < length xs" by simp
    then have "length (drop (w - ov) xs) < length xs" using assms by simp
    with 1 have "\<forall>v\<in>set (spec_windows w ov (drop (w - ov) xs)). length v \<le> w" by blast
    then show ?thesis using long assms by (simp add: spec_windows_long)
  qed
qed

section \<open>The splitter on a text without white space\<close>

lemma occurs_head: "occurs (ch # sep) xs \<Longrightarrow> ch \<in> set xs"
  by (induction xs) (auto simp: prefix_Cons)

lemma strip_same: "\<forall>ch\<in>set xs. \<not> py_isspace ch \<Longrightarrow> strip xs = xs"
proof -
  assume a: "\<forall>ch\<in>set xs. \<not> py_isspace ch"
  have "dropWhile py_isspace ys = ys" if "\<forall>ch\<in>set ys. \<not> py_isspace ch" for ys
    using that by (cases ys) auto
  from this[of xs] this[of "rev xs"] a show ?thesis by (simp add: strip_def)
qed

lemma join_chars: "join [] (map (\<lambda>ch. [ch]) xs) = xs"
proof (induction xs)
  case Nil
  then show ?case by simp
next
  case (Cons x xs)
  then show ?case by (cases xs) auto
qed

lemma join_docs_chars:
  "\<forall>ch\<in>set xs. \<not> py_isspace ch \<Longrightarrow>
   join_docs [] (map (\<lambda>ch. [ch]) xs) = (if xs = [] then [] else [xs])"
  by (simp add: join_docs_def join_chars strip_same)

lemma pop_chars:
  assumes "ov < w"
  shows "pop \<lparr>chunk_size = w, chunk_overlap = ov\<rparr> 0 1 (map (\<lambda>ch. [ch]) cur) (length cur) =
           (map (\<lambda>ch. [ch]) (drop (length cur - ov) cur), min (length cur) ov)"
proof (induction cur)
  case Nil
  then show ?case by simp
next
  case (Cons x cur)
  show ?case
  proof (cases "ov < Suc (length cur)")
    case True
    then have "Suc (length cur) - ov = Suc (length cur - ov)" by simp
    with True Cons show ?thesis by (simp add: min_def)
  next
    case False
    with assms show ?thesis by (simp add: min_def)
  qed
qed

lemma merge_loop_chars:
  assumes "ov < w"
  shows "\<forall>ch\<in>set (cur @ ys). \<not> py_isspace ch \<Longrightarrow> length cur \<le> w \<Longrightarrow>
         merge_loop \<lparr>chunk_size = w, chunk_overlap = ov\<rparr> [] (map (\<lambda>ch. [ch]) ys) docs
           (map (\<lambda>ch. [ch]) cur) (length cur) =
         docs @ spec_windows w ov (cur @ ys)"
proof (induction ys arbitrary: docs cur)
  case Nil
  then show ?case by (simp add: join_docs_chars spec_windows_le)
next
  case (Cons y ys)
  show ?case
  proof (cases "length cur = w")
    case True
    then have ne: "cur \<noteq> []" using assms by auto
    have clean: "\<forall>ch\<in>set cur. \<not> py_isspace ch" using Cons.prems(1) by simp
    let ?keep = "drop (w - ov) cur"
    have popped: "pop \<lparr>chunk_size = w, chunk_overlap = ov\<rparr> 0 1 (map (\<lambda>ch. [ch]) cur) w =
        (map (\<lambda>ch. [ch]) ?keep, ov)"
      using pop_chars[OF assms, of cur] True assms by (simp add: min_def)
    have len: "length (?keep @ [y]) = Suc ov" using True assms by simp
    have "\<forall>ch\<in>set ((?keep @ [y]) @ ys). \<not> py_isspace ch"
      using Cons.prems(1) by (auto dest: in_set_dropD)
    moreover have "length (?keep @ [y]) \<le> w" using len assms by simp
    ultimately have IH:
      "merge_loop \<lparr>chunk_size = w, chunk_overlap = ov\<rparr> [] (map (\<lambda>ch. [ch]) ys) (docs @ [cur])
           (map (\<lambda>ch. [ch]) (?keep @ [y])) (length (?keep @ [y])) =
         (docs @ [cur]) @ spec_windows w ov ((?keep @ [y]) @ ys)"
      by (rule Cons.IH)
    have emitted: "join_docs [] (map (\<lambda>ch. [ch]) cur) = [cur]"
      using clean ne by (simp add: join_docs_chars)
    have "merge_loop \<lparr>chunk_size = w, chunk_overlap = ov\<rparr> [] (map (\<lambda>ch. [ch]) (y # ys)) docs
           (map (\<lambda>ch. [ch]) cur) (length cur) =
        merge_loop \<lparr>chunk_size = w, chunk_overlap = ov\<rparr> [] (map (\<lambda>ch. [ch]) ys)
           (docs @ join_docs [] (map (\<lambda>ch. [ch]) cur))
           (map (\<lambda>ch. [ch]) ?keep @ [[y]]) (Suc ov)"
      using True ne popped by simp
    also have "\<dots> =
        merge_loop \<lparr>chunk_size = w, chunk_overlap = ov\<rparr> [] (map (\<lambda>ch. [ch]) ys) (docs @ [cur])
           (map (\<lambda>ch. [ch]) (?keep @ [y])) (length (?keep @ [y]))"
      unfolding emitted len by simp
    also have "\<dots> = (docs @ [cur]) @ spec_windows w ov ((?keep @ [y]) @ ys)"
      by (rule IH)
    also have "\<dots> = docs @ spec_windows w ov (cur @ y # ys)"
      using True assms by (simp add: spec_windows_long)
    finally show ?thesis .
  next
    case False
    with Cons.prems(2) have short: "length cur < w" by simp
    have "\<forall>ch\<in>set ((cur @ [y]) @ ys). \<not> py_isspace ch" using Cons.prems(1) by simp
    moreover have "length (cur @ [y]) \<le> w" using short by simp
    ultimately have IH:
      "merge_loop \<lparr>chunk_size = w, chunk_overlap = ov\<rparr> [] (map (\<lambda>ch. [ch]) ys) docs
           (map (\<lambda>ch. [ch]) (cur @ [y])) (length (cur @ [y])) =
         docs @ spec_windows w ov ((cur @ [y]) @ ys)"
      by (rule Cons.IH)
    have "merge_loop \<lparr>chunk_size = w, chunk_overlap = ov\<rparr> [] (map (\<lambda>ch. [ch]) (y # ys)) docs
           (map (\<lambda>ch. [ch]) cur) (length cur) =
        merge_loop \<lparr>chunk_size = w, chunk_overlap = ov\<rparr> [] (map (\<lambda>ch. [ch]) ys) docs
           (map (\<lambda>ch. [ch]) cur @ [[y]]) (Suc (length cur))"
      using short by simp
    also have "\<dots> =
        merge_loop \<lparr>chunk_size = w, chunk_overlap = ov\<rparr> [] (map (\<lambda>ch. [ch]) ys) docs
           (map (\<lambda>ch. [ch]) (cur @ [y])) (length (cur @ [y]))"
      by simp
    also have "\<dots> = docs @ spec_windows w ov ((cur @ [y]) @ ys)"
      by (rule IH)
    finally show ?thesis by simp
  qed
qed

lemma process_chars_small:
  assumes "1 < w"
  shows "process \<lparr>chunk_size = w, chunk_overlap = ov\<rparr> deeper (map (\<lambda>ch. [ch]) xs) good =
           (if good @ map (\<lambda>ch. [ch]) xs = [] then []
            else merge_splits \<lparr>chunk_size = w, chunk_overlap = ov\<rparr> [] (good @ map (\<lambda>ch. [ch]) xs))"
  using assms by (induction xs arbitrary: good) auto

lemma process_chars_one:
  "process \<lparr>chunk_size = 1, chunk_overlap = ov\<rparr> (\<lambda>p. [p]) (map (\<lambda>ch. [ch]) xs) [] =
     map (\<lambda>ch. [ch]) xs"
  by (induction xs) auto

lemma spec_windows_one: "spec_windows 1 0 xs = map (\<lambda>ch. [ch]) xs"
proof (induction xs)
  case Nil
  then show ?case by simp
next
  case (Cons x xs)
  then show ?case
    by (cases xs) (simp_all add: spec_windows_short spec_windows_long)
qed

text \<open>
  On a text with no white space the splitter of the library cuts exactly the windows
  of the specification.
\<close>

lemma recursive_split_text_windows:
  assumes "ov < w" and "\<forall>ch\<in>set xs. \<not> py_isspace ch"
  shows "recursive_split_text w ov xs = spec_windows w ov xs"
proof -
  let ?sp = "\<lparr>chunk_size = w, chunk_overlap = ov\<rparr>"
  have space: "py_isspace 10" "py_isspace 32" by (simp_all add: py_isspace_def)
  have none: "\<not> occurs [10, 10] xs" "\<not> occurs [10] xs" "\<not> occurs [32] xs"
    using assms(2) space by (auto dest: occurs_head)
  then have chars: "recursive_split_text w ov xs =
      process ?sp (\<lambda>p. [p]) (map (\<lambda>ch. [ch]) xs) []"
    by (simp add: recursive_split_text_def separators_def split_text_with_regex_def)
  show ?thesis
  proof (cases "w = 1")
    case True
    with assms(1) have "ov = 0" by simp
    with True show ?thesis
      using chars process_chars_one[of ov xs] spec_windows_one[of xs] by simp
  next
    case False
    with assms(1) have "1 < w" by simp
    from process_chars_small[OF this, of ov _ xs "[]"]
    have "recursive_split_text w ov xs =
        (if xs = [] then [] else merge_splits ?sp [] (map (\<lambda>ch. [ch]) xs))"
      by (simp add: chars)
    moreover have "merge_splits ?sp [] (map (\<lambda>ch. [ch]) xs) = spec_windows w ov xs"
      using merge_loop_chars[OF assms(1), of "[]" xs "[]"] assms(2)
      by (simp add: merge_splits_def)
    ultimately show ?thesis by simp
  qed
qed


lemma spec_windows_full:
  assumes "ov < w"
  shows "\<forall>v\<in>set (butlast (spec_windows w ov xs)). length v = w"
proof (induction xs rule: length_induct)
  case (1 xs)
  show ?case
  proof (cases "length xs \<le> w")
    case True
    then show ?thesis by (simp add: spec_windows_le)
  next
    case False
    then have long: "w < length xs" by simp
    let ?ys = "drop (w - ov) xs"
    have "length ?ys < length xs" using long assms by simp
    with 1 have IH: "\<forall>v\<in>set (butlast (spec_windows w ov ?ys)). length v = w" by blast
    have "?ys \<noteq> []" using long assms by simp
    then obtain rest where "spec_windows w ov ?ys = take w ?ys # rest"
      using assms by (rule spec_windows_first)
    then have "spec_windows w ov ?ys \<noteq> []" by simp
    then have shorter: "butlast (take w xs # spec_windows w ov ?ys) =
        take w xs # butlast (spec_windows w ov ?ys)"
      by simp
    have first: "length (take w xs) = w" using long by simp
    have "spec_windows w ov xs = take w xs # spec_windows w ov ?ys"
      using long assms by (rule spec_windows_long)
    then have "butlast (spec_windows w ov xs) = take w xs # butlast (spec_windows w ov ?ys)"
      using shorter by simp
    then show ?thesis using IH first by simp
  qed
qed

lemma split_one_document:
  "split_documents env sp [d] =
     map (\<lambda>t. d\<lparr>page_content := t\<rparr>) (split_text env (chunk_size sp) (chunk_overlap sp) (page_content d))"
  by (simp add: split_documents_def)

text \<open>
  Claim C5, as amended. When the splitting is that of the library, the overlap is less
  than the chunk size and the text of the document has no white-space character, the
  chunks of the document are the windows of the specification: windows of the chunk
  size that advance by the chunk size less the overlap, every one but the last of full
  length and none longer; a chunk begins with the last characters of the chunk before,
  as many as the overlap; the first chunk followed by what every later chunk adds to
  the one before is the text of the document; and every chunk has the metadata of the
  document. (Of a text with white space nothing is said here.)
\<close>

theorem chunks_are_windows:
  assumes "split_text env = recursive_split_text"
    and "ov < w"
    and "\<forall>ch\<in>set (page_content d). \<not> py_isspace ch"
  shows
   "map page_content (split_documents env \<lparr>chunk_size = w, chunk_overlap = ov\<rparr> [d]) =
      spec_windows w ov (page_content d) \<and>
    (\<forall>chunk\<in>set (split_documents env \<lparr>chunk_size = w, chunk_overlap = ov\<rparr> [d]).
       metadata chunk = metadata d \<and> length (page_content chunk) \<le> w) \<and>
    (\<forall>chunk\<in>set (butlast (split_documents env \<lparr>chunk_size = w, chunk_overlap = ov\<rparr> [d])).
       length (page_content chunk) = w) \<and>
    overlapping ov
      (map page_content (split_documents env \<lparr>chunk_size = w, chunk_overlap = ov\<rparr> [d])) \<and>
    reconstruct ov
      (map page_content (split_documents env \<lparr>chunk_size = w, chunk_overlap = ov\<rparr> [d])) =
      page_content d"
proof -
  let ?chunks = "split_documents env \<lparr>chunk_size = w, chunk_overlap = ov\<rparr> [d]"
  let ?ws = "spec_windows w ov (page_content d)"
  have chunks: "?chunks = map (\<lambda>t. d\<lparr>page_content := t\<rparr>) ?ws"
    using assms by (simp add: split_one_document recursive_split_text_windows)
  then have texts: "map page_content ?chunks = ?ws" by (simp add: comp_def)
  have bounded: "\<forall>chunk\<in>set ?chunks. metadata chunk = metadata d \<and> length (page_content chunk) \<le> w"
    using spec_windows_bounded[OF assms(2), of "page_content d"] unfolding chunks by auto
  have "butlast ?chunks = map (\<lambda>t. d\<lparr>page_content := t\<rparr>) (butlast ?ws)"
    unfolding chunks by (simp add: map_butlast)
  then have full: "\<forall>chunk\<in>set (butlast ?chunks). length (page_content chunk) = w"
    using spec_windows_full[OF assms(2), of "page_content d"] by auto
  have over: "overlapping ov (map page_content ?chunks)"
    unfolding texts by (rule overlapping_spec_windows[OF assms(2)])
  have whole: "reconstruct ov (map page_content ?chunks) = page_content d"
    unfolding texts by (rule reconstruct_spec_windows[OF assms(2)])
  show ?thesis
    by (intro conjI; fact texts bounded full over whole)
qed

theorem chunks_are_windows_witness:
  "split_text langchain_env = recursive_split_text \<and>
   filter py_isspace (py ''alpha'') = [] \<and>
   map page_content
     (split_documents langchain_env \<lparr>chunk_size = 3, chunk_overlap = 1\<rparr>
        [page (py ''https://a.test'') (py ''alpha'')]) = [py ''alp'', py ''pha''] \<and>
   overlapping 1 [py ''alp'', py ''pha''] \<and>
   reconstruct 1 [py ''alp'', py ''pha''] = py ''alpha''"
proof -
  let ?d = "page (py ''https://a.test'') (py ''alpha'')"
  have a: "split_text langchain_env = recursive_split_text" by (simp add: langchain_env_def)
  have b: "(1::nat) < 3" by simp
  have c: "\<forall>ch\<in>set (page_content ?d). \<not> py_isspace ch"
    by (simp add: page_def py_def py_isspace_def)
  have "spec_windows 3 1 (py ''alpha'') = [py ''alp'', py ''pha'']"
    by (simp add: spec_windows_long spec_windows_le py_def)
  then have w: "spec_windows 3 1 (page_content ?d) = [py ''alp'', py ''pha'']"
    by (simp add: page_def)
  note T = chunks_are_windows[OF a b c]
  have eq: "map page_content
      (split_documents langchain_env \<lparr>chunk_size = 3, chunk_overlap = 1\<rparr> [?d]) =
      [py ''alp'', py ''pha'']"
    using T[THEN conjunct1] unfolding w .
  have over: "overlapping 1 [py ''alp'', py ''pha'']"
    using T[THEN conjunct2, THEN conjunct2, THEN conjunct2, THEN conjunct1] unfolding eq .
  have "reconstruct 1 [py ''alp'', py ''pha''] = page_content ?d"
    using T[THEN conjunct2, THEN conjunct2, THEN conjunct2, THEN conjunct2] unfolding eq .
  then have whole: "reconstruct 1 [py ''alp'', py ''pha''] = py ''alpha''"
    by (simp only: page_def document.simps)
  have clean: "filter py_isspace (py ''alpha'') = []"
    by (simp add: py_def py_isspace_def)
  show ?thesis
    by (intro conjI; fact a clean eq over whole)
qed

text \<open>
  Claim C5 as it is stated fails on a text with white space. The text of the page is the
  letter a followed by a space, as a text taken from a page ends with white space more
  often than not. The splitter, with the parameters of the notebook, cuts it at the
  space and joins the two pieces again, as they are short, and strips the chunk: the one
  chunk is the letter alone, and putting the chunks together does not give the text.
\<close>

theorem stripped_chunk_loses_text:
  "map page_content
     (split_documents langchain_env SPLITTER [page (py ''https://a.test'') (py ''a '')]) =
     [py ''a''] \<and>
   reconstruct (chunk_overlap SPLITTER)
     (map page_content
        (split_documents langchain_env SPLITTER [page (py ''https://a.test'') (py ''a '')])) \<noteq>
     page_content (page (py ''https://a.test'') (py ''a ''))"
proof -
  have "recursive_split_text 512 64 (py ''a '') = [py ''a'']"
    by (simp add: recursive_split_text_def separators_def split_text_with_regex_def
          merge_splits_def join_docs_def strip_def py_isspace_def py_def)
  then have "map page_content
     (split_documents langchain_env SPLITTER [page (py ''https://a.test'') (py ''a '')]) =
     [py ''a'']"
    by (simp add: split_one_document langchain_env_def SPLITTER_def page_def comp_def)
  moreover have "py ''a'' \<noteq> py ''a ''" by (simp add: py_def)
  ultimately show ?thesis by (simp add: page_def)
qed


end
